theory Spec2Isabelle
  imports Main "HOL-Library.AList"
begin

section \<open>Strings and POSIX paths\<close>

text \<open>
  Python strings are modelled as \<open>string\<close>.  The functions below follow the standard
  library functions the services call: \<open>str.lower\<close> (on the ASCII letters, which is all
  the extension tests need), \<open>str.endswith\<close>, the substring test \<open>a in b\<close>,
  \<open>os.path.basename\<close>, \<open>os.path.dirname\<close>, \<open>os.path.splitext\<close>,
  \<open>os.path.join\<close> (POSIX flavour) and the decimal rendering of a non-negative
  integer inside an f-string.
\<close>

definition lower_char :: "char \<Rightarrow> char" where
  "lower_char c =
     (case map_of (zip ''ABCDEFGHIJKLMNOPQRSTUVWXYZ'' ''abcdefghijklmnopqrstuvwxyz'') c of
        None \<Rightarrow> c
      | Some l \<Rightarrow> l)"

definition lower :: "string \<Rightarrow> string" where
  "lower s = map lower_char s"

definition endswith :: "string \<Rightarrow> string \<Rightarrow> bool" where
  "endswith s suf = (length suf \<le> length s \<and> drop (length s - length suf) s = suf)"

fun py_in :: "string \<Rightarrow> string \<Rightarrow> bool" where
  "py_in needle [] = (needle = [])"
| "py_in needle (c # cs) = (take (length needle) (c # cs) = needle \<or> py_in needle cs)"

definition is_image_name :: "string \<Rightarrow> bool" where
  "is_image_name f =
     (let l = lower f in endswith l ''.png'' \<or> endswith l ''.jpg'' \<or> endswith l ''.jpeg'')"

definition basename :: "string \<Rightarrow> string" where
  "basename p = rev (takeWhile (\<lambda>c. c \<noteq> CHR ''/'') (rev p))"

definition rstrip_slash :: "string \<Rightarrow> string" where
  "rstrip_slash s = rev (dropWhile (\<lambda>c. c = CHR ''/'') (rev s))"

definition dirname :: "string \<Rightarrow> string" where
  "dirname p =
     (let head = take (length p - length (basename p)) p in
      if head \<noteq> [] \<and> head \<noteq> replicate (length head) (CHR ''/'')
      then rstrip_slash head else head)"

definition splitext :: "string \<Rightarrow> string \<times> string" where
  "splitext p =
     (let ext = rev (takeWhile (\<lambda>c. c \<noteq> CHR ''.'') (rev p));
          root = take (length p - length ext - 1) p in
      if CHR ''.'' \<in> set p \<and> CHR ''/'' \<notin> set ext
         \<and> (\<exists>c \<in> set (basename root). c \<noteq> CHR ''.'')
      then (root, CHR ''.'' # ext) else (p, []))"

definition path_join :: "string \<Rightarrow> string \<Rightarrow> string" where
  "path_join a b =
     (if b \<noteq> [] \<and> hd b = CHR ''/'' then b
      else if a = [] \<or> last a = CHR ''/'' then a @ b
      else a @ ''/'' @ b)"

definition digit_char :: "nat \<Rightarrow> char" where
  "digit_char d = ''0123456789'' ! d"

function str_nat :: "nat \<Rightarrow> string" where
  "str_nat n = (if n < 10 then [digit_char n] else str_nat (n div 10) @ [digit_char (n mod 10)])"
  by pat_completeness auto
termination
  by (relation "measure id") auto

declare str_nat.simps [simp del]

lemma str_nat_small: "n < 10 \<Longrightarrow> str_nat n = [digit_char n]"
  by (subst str_nat.simps) simp

section \<open>Face-presence renaming (the rename service)\<close>

text \<open>
  \<open>FaceDetectionProcessor.next_closeup_name\<close> counts \<open>index\<close> up from 1 until
  \<open>closeup(index)ext\<close> is not in \<open>existing_names\<close>.  The Python set is represented by
  the list of its elements.  The loop has no bound of its own; it ends because the decimal
  rendering is injective, so only finitely many indices can be taken.
\<close>

definition closeup_name :: "nat \<Rightarrow> string \<Rightarrow> string" where
  "closeup_name index ext = ''closeup('' @ str_nat index @ '')'' @ ext"

lemma digit_char_inj: "a < 10 \<Longrightarrow> b < 10 \<Longrightarrow> digit_char a = digit_char b \<Longrightarrow> a = b"
  unfolding digit_char_def by (subst (asm) nth_eq_iff_index_eq) simp_all

lemma str_nat_nonempty: "str_nat n \<noteq> []"
  by (subst str_nat.simps) simp

lemma str_nat_inj: "str_nat m = str_nat n \<Longrightarrow> m = n"
proof (induction m arbitrary: n rule: str_nat.induct)
  case (1 m)
  show ?case
  proof (cases "m < 10")
    case msmall: True
    show ?thesis
    proof (cases "n < 10")
      case True
      with msmall "1.prems" show ?thesis
        by (simp add: str_nat_small digit_char_inj)
    next
      case False
      then have "str_nat n = str_nat (n div 10) @ [digit_char (n mod 10)]"
        by (subst str_nat.simps) simp
      with msmall "1.prems" have "[digit_char m] = str_nat (n div 10) @ [digit_char (n mod 10)]"
        by (simp add: str_nat_small)
      then have "str_nat (n div 10) = []" by simp
      then show ?thesis by (simp add: str_nat_nonempty)
    qed
  next
    case mbig: False
    then have m: "str_nat m = str_nat (m div 10) @ [digit_char (m mod 10)]"
      by (subst str_nat.simps) simp
    show ?thesis
    proof (cases "n < 10")
      case True
      with m "1.prems" have "str_nat (m div 10) @ [digit_char (m mod 10)] = [digit_char n]"
        by (simp add: str_nat_small)
      then have "str_nat (m div 10) = []" by simp
      then show ?thesis by (simp add: str_nat_nonempty)
    next
      case False
      then have n: "str_nat n = str_nat (n div 10) @ [digit_char (n mod 10)]"
        by (subst str_nat.simps) simp
      from m n "1.prems" have e1: "str_nat (m div 10) = str_nat (n div 10)"
        and e2: "digit_char (m mod 10) = digit_char (n mod 10)" by simp_all
      from "1.IH" [OF mbig e1] have d: "m div 10 = n div 10" .
      from e2 have r: "m mod 10 = n mod 10" by (intro digit_char_inj) simp_all
      from d r show ?thesis by (metis div_mult_mod_eq)
    qed
  qed
qed

lemma closeup_name_inj: "closeup_name i ext = closeup_name j ext \<Longrightarrow> i = j"
  by (simp add: closeup_name_def str_nat_inj)

lemma finite_closeup_indices: "finite {j. closeup_name j ext \<in> set names}"
proof -
  have "inj (\<lambda>j. closeup_name j ext)"
    by (rule injI) (rule closeup_name_inj)
  then have "finite ((\<lambda>j. closeup_name j ext) -` set names)"
    by (rule finite_vimageI [OF finite_set])
  then show ?thesis by (simp add: vimage_def)
qed

function next_closeup_from :: "string list \<Rightarrow> string \<Rightarrow> nat \<Rightarrow> string" where
  "next_closeup_from existing_names ext index =
     (let new_name = closeup_name index ext in
      if new_name \<notin> set existing_names then new_name
      else next_closeup_from existing_names ext (index + 1))"
  by pat_completeness auto
termination
proof (relation "measure (\<lambda>(names, ext, i). card {j. i \<le> j \<and> closeup_name j ext \<in> set names})")
  show "wf (measure (\<lambda>(names, ext, i). card {j. i \<le> j \<and> closeup_name j ext \<in> set names}))"
    by simp
next
  fix existing_names :: "string list" and ext :: string and index :: nat and x
  assume x: "x = closeup_name index ext" and "\<not> x \<notin> set existing_names"
  then have mem: "closeup_name index ext \<in> set existing_names" by simp
  have fin: "finite {j. index \<le> j \<and> closeup_name j ext \<in> set existing_names}"
    by (rule finite_subset [OF _ finite_closeup_indices [of ext existing_names]]) auto
  have "index \<in> {j. index \<le> j \<and> closeup_name j ext \<in> set existing_names}"
    using mem by simp
  moreover have "index \<notin> {j. index + 1 \<le> j \<and> closeup_name j ext \<in> set existing_names}"
    by simp
  moreover have "{j. index + 1 \<le> j \<and> closeup_name j ext \<in> set existing_names}
          \<subseteq> {j. index \<le> j \<and> closeup_name j ext \<in> set existing_names}"
    by auto
  ultimately have "{j. index + 1 \<le> j \<and> closeup_name j ext \<in> set existing_names}
          \<subset> {j. index \<le> j \<and> closeup_name j ext \<in> set existing_names}"
    by blast
  then have "card {j. index + 1 \<le> j \<and> closeup_name j ext \<in> set existing_names}
          < card {j. index \<le> j \<and> closeup_name j ext \<in> set existing_names}"
    by (rule psubset_card_mono [OF fin])
  then show "((existing_names, ext, index + 1), existing_names, ext, index)
      \<in> measure (\<lambda>(names, ext, i). card {j. i \<le> j \<and> closeup_name j ext \<in> set names})"
    by simp
qed

declare next_closeup_from.simps [simp del]

definition next_closeup_name :: "string list \<Rightarrow> string \<Rightarrow> string" where
  "next_closeup_name existing_names ext = next_closeup_from existing_names ext 1"

lemma next_closeup_from_least:
  "\<exists>i\<ge>index. next_closeup_from names ext index = closeup_name i ext
      \<and> closeup_name i ext \<notin> set names
      \<and> (\<forall>j. index \<le> j \<and> j < i \<longrightarrow> closeup_name j ext \<in> set names)"
proof (induction names ext index rule: next_closeup_from.induct)
  case (1 names ext index)
  show ?case
  proof (cases "closeup_name index ext \<in> set names")
    case False
    then have "next_closeup_from names ext index = closeup_name index ext"
      by (subst next_closeup_from.simps) simp
    with False show ?thesis by (intro exI [of _ index]) auto
  next
    case True
    then have unf: "next_closeup_from names ext index = next_closeup_from names ext (index + 1)"
      by (subst next_closeup_from.simps) simp
    from "1.IH" [OF refl] True obtain i where i: "index + 1 \<le> i"
      "next_closeup_from names ext (index + 1) = closeup_name i ext"
      "closeup_name i ext \<notin> set names"
      "\<forall>j. index + 1 \<le> j \<and> j < i \<longrightarrow> closeup_name j ext \<in> set names"
      by auto
    have "\<forall>j. index \<le> j \<and> j < i \<longrightarrow> closeup_name j ext \<in> set names"
    proof (intro allI impI)
      fix j assume "index \<le> j \<and> j < i"
      then show "closeup_name j ext \<in> set names"
        using True i(4) by (cases "j = index") auto
    qed
    with i unf show ?thesis by (intro exI [of _ i]) auto
  qed
qed


record processing_detail =
  original_file :: string
  new_filename :: string
  renamed :: bool
  face_detected :: bool

record rename_state =
  processed_count :: nat
  renamed_count :: nat
  skipped_count :: nat
  errors :: "string list"
  processing_details :: "processing_detail list"
  existing_names :: "string list"
  copied :: "(string \<times> string) list"

record rename_env =
  is_face_visible_mediapipe :: "string \<Rightarrow> bool option"
  copy2_ok :: "string \<Rightarrow> string \<Rightarrow> bool"
  relpath :: "string \<Rightarrow> string \<Rightarrow> string"

definition rename_init :: rename_state where
  "rename_init = \<lparr>processed_count = 0, renamed_count = 0, skipped_count = 0, errors = [],
     processing_details = [], existing_names = [], copied = []\<rparr>"

definition process_one ::
  "rename_env \<Rightarrow> string \<Rightarrow> string \<Rightarrow> rename_state \<Rightarrow> string \<Rightarrow> rename_state" where
  "process_one env input_dir output_dir st img_path =
     (let rel_path = relpath env img_path input_dir;
          filename = basename img_path;
          ext = snd (splitext filename) in
      case is_face_visible_mediapipe env img_path of
        None \<Rightarrow> st\<lparr>errors := errors st @ [img_path]\<rparr>
      | Some has_face \<Rightarrow>
          (let new_filename =
                 (if has_face then filename else next_closeup_name (existing_names st) ext);
               st1 = (if has_face then st
                      else st\<lparr>existing_names := List.insert new_filename (existing_names st)\<rparr>);
               output_path = path_join output_dir new_filename in
           if \<not> copy2_ok env img_path output_path
           then st1\<lparr>errors := errors st1 @ [img_path]\<rparr>
           else st1\<lparr>copied := copied st1 @ [(img_path, output_path)],
                    processed_count := processed_count st1 + 1,
                    renamed_count := renamed_count st1 + (if has_face then 0 else 1),
                    skipped_count := skipped_count st1 + (if has_face then 1 else 0),
                    processing_details := processing_details st1 @
                      [\<lparr>original_file = rel_path, new_filename = new_filename,
                        renamed = \<not> has_face, face_detected = has_face\<rparr>]\<rparr>))"

definition process_loop ::
  "rename_env \<Rightarrow> string \<Rightarrow> string \<Rightarrow> string list \<Rightarrow> rename_state" where
  "process_loop env input_dir output_dir image_files =
     foldl (process_one env input_dir output_dir) rename_init image_files"

definition is_rename_image :: "string \<Rightarrow> bool" where
  "is_rename_image f =
     (let l = lower f in
      endswith l ''.png'' \<or> endswith l ''.jpg'' \<or> endswith l ''.jpeg'' \<or>
      endswith l ''.bmp'' \<or> endswith l ''.tiff'' \<or> endswith l ''.webp'')"

definition process_images ::
  "rename_env \<Rightarrow> string \<Rightarrow> string \<Rightarrow> (string \<times> string list) list \<Rightarrow> nat \<times> rename_state" where
  "process_images env input_dir output_dir walk =
     (let image_files =
            concat (map (\<lambda>(root, files). map (path_join root) (filter is_rename_image files)) walk) in
      if image_files = [] then (0, rename_init)
      else (length image_files, process_loop env input_dir output_dir image_files))"

definition generated_names :: "rename_state \<Rightarrow> string list" where
  "generated_names st = map new_filename (filter renamed (processing_details st))"

lemma next_closeup_name_least:
  "\<exists>i>0. next_closeup_name names ext = closeup_name i ext
      \<and> closeup_name i ext \<notin> set names
      \<and> (\<forall>j. 0 < j \<and> j < i \<longrightarrow> closeup_name j ext \<in> set names)"
proof -
  from next_closeup_from_least [of 1 names ext] obtain i where i: "1 \<le> i"
    "next_closeup_from names ext 1 = closeup_name i ext"
    "closeup_name i ext \<notin> set names"
    "\<forall>j. 1 \<le> j \<and> j < i \<longrightarrow> closeup_name j ext \<in> set names"
    by blast
  have "\<forall>j. 0 < j \<and> j < i \<longrightarrow> closeup_name j ext \<in> set names"
    using i(4) by (simp add: Suc_le_eq)
  with i show ?thesis
    unfolding next_closeup_name_def by (intro exI [of _ i]) auto
qed

lemma next_closeup_name_fresh: "next_closeup_name names ext \<notin> set names"
  using next_closeup_name_least [of names ext] by auto

definition rename_inv :: "rename_state \<Rightarrow> bool" where
  "rename_inv st = (distinct (existing_names st) \<and> distinct (generated_names st)
      \<and> set (generated_names st) \<subseteq> set (existing_names st))"

lemma process_one_inv: "rename_inv st \<Longrightarrow> rename_inv (process_one env i_dir o_dir st img)"
  using next_closeup_name_fresh [of "existing_names st" "snd (splitext (basename img))"]
  by (auto simp: rename_inv_def process_one_def generated_names_def Let_def
      split: option.splits)

lemma foldl_process_one_inv:
  "rename_inv st \<Longrightarrow> rename_inv (foldl (process_one env i_dir o_dir) st imgs)"
  by (induction imgs arbitrary: st) (simp_all add: process_one_inv)

lemma process_loop_inv: "rename_inv (process_loop env i_dir o_dir imgs)"
  unfolding process_loop_def
  by (rule foldl_process_one_inv) (simp add: rename_inv_def rename_init_def generated_names_def)

text \<open>A concrete environment for the examples: only \<open>in/closeup(1).jpg\<close> shows a face,
  every copy succeeds.\<close>

definition example_rename_env :: rename_env where
  "example_rename_env =
     \<lparr>is_face_visible_mediapipe = (\<lambda>p. Some (p = ''in/closeup(1).jpg'')),
      copy2_ok = (\<lambda>src dst. True),
      relpath = (\<lambda>p d. basename p)\<rparr>"

lemma process_loop_snoc:
  "process_loop env i_dir o_dir (pre @ [img])
     = process_one env i_dir o_dir (process_loop env i_dir o_dir pre) img"
  by (simp add: process_loop_def)

lemma example_collision:
  "map new_filename (processing_details
       (process_loop example_rename_env ''in'' ''out'' [''in/closeup(1).jpg'', ''in/b.jpg'']))
     = [''closeup(1).jpg'', ''closeup(1).jpg'']"
  by (simp add: process_loop_def process_one_def rename_init_def example_rename_env_def
      basename_def splitext_def next_closeup_name_def next_closeup_from.simps closeup_name_def
      str_nat_small digit_char_def path_join_def Let_def)


section \<open>The render engine as the services see it\<close>

subsection \<open>Job graphs and the object store\<close>

text \<open>
  A job graph is the JSON object of the workflow file: node identifier to node descriptor.
  Python dictionaries keep insertion order, so a dictionary is an association list with
  distinct keys; \<open>d.get(k)\<close> is \<open>map_of d k\<close> and \<open>d[k] = v\<close> is \<open>AList.update k v d\<close>
  (replace in place, or append).  A node descriptor always carries its class type; its
  \<open>inputs\<close> entry may be missing (\<open>None\<close>).
\<close>

datatype jvalue = JStr string | JInt int | JBool bool | JNull | JList "jvalue list"

record node =
  class_type :: string
  inputs :: "(string \<times> jvalue) list option"

type_synonym graph = "(string \<times> node) list"

text \<open>
  Graphs are mutable Python objects reached through references.  A service either works on
  the object it was given or on the result of \<open>json.loads(json.dumps(g))\<close>, which builds
  a fresh object tree with the same content.  The store maps an address to the graph
  object that lives there; addresses below \<open>fresh\<close> are allocated.
\<close>

subsection \<open>History responses\<close>

record image_ref =
  filename :: string
  subfolder :: "string option"
  img_type :: "string option"

text \<open>
  The output of one node in a history entry: the \<open>images\<close> list when the key is
  present, and the names of whatever other keys the object has (an object without any key
  is falsy in Python).
\<close>

record node_output =
  images :: "image_ref list option"
  other_keys :: "string list"

record history_entry =
  outputs :: "(string \<times> node_output) list option"

type_synonym history = "(string \<times> history_entry) list"

record http_response =
  status_code :: nat
  json_body :: history

datatype poll_outcome = RequestFailed | Response http_response

datatype submit_outcome = SubmitFailed | SubmitReplied "string option"

record view_params =
  vp_filename :: string
  vp_subfolder :: string
  vp_type :: string

subsection \<open>Effects\<close>

text \<open>
  Every call that leaves the process is recorded in a trace, together with the log lines
  the claims speak about.  The engine and the file system answer a call as a function of
  the trace so far and the call's argument, which covers every deterministic environment.
  The clock counts milliseconds; a history request takes the latency the environment
  reports and a sleep takes its interval.
\<close>

datatype pair_failure = UploadFailure | UpdateFailure | SubmitFailure | DownloadFailure

datatype log_entry =
    NoMaskFound string
  | MatchingPair string string
  | VariantDownloaded nat string
  | VariantFailed nat
  | PairProcessed string
  | PairFailed string pair_failure

datatype event =
    Upload string
  | Submit graph
  | History string
  | Sleep nat
  | View view_params
  | WriteFile string
  | Makedirs string
  | Log log_entry

record engine =
  upload_reply :: "event list \<Rightarrow> string \<Rightarrow> string option"
  submit_reply :: "event list \<Rightarrow> graph \<Rightarrow> submit_outcome"
  history_reply :: "event list \<Rightarrow> string \<Rightarrow> nat \<times> poll_outcome"
  view_reply :: "event list \<Rightarrow> view_params \<Rightarrow> string option"
  write_reply :: "event list \<Rightarrow> string \<Rightarrow> bool"
  makedirs_reply :: "event list \<Rightarrow> string \<Rightarrow> bool"

record state =
  cells :: "nat \<Rightarrow> graph"
  fresh :: nat
  clock :: nat
  trace :: "event list"

definition emit :: "event \<Rightarrow> state \<Rightarrow> state" where
  "emit e s = s\<lparr>trace := trace s @ [e]\<rparr>"

definition advance :: "nat \<Rightarrow> state \<Rightarrow> state" where
  "advance d s = s\<lparr>clock := clock s + d\<rparr>"

definition sleep :: "nat \<Rightarrow> state \<Rightarrow> state" where
  "sleep seconds s = emit (Sleep seconds) (advance (1000 * seconds) s)"

text \<open>\<open>json.loads(json.dumps(g))\<close>: a fresh object with the content of the one at \<open>a\<close>.\<close>

definition deep_copy :: "nat \<Rightarrow> state \<Rightarrow> nat \<times> state" where
  "deep_copy a s = (fresh s, s\<lparr>cells := (cells s)(fresh s := cells s a), fresh := fresh s + 1\<rparr>)"

text \<open>Truthiness of a Python value as the services test it.\<close>

definition truthy_str :: "string option \<Rightarrow> bool" where
  "truthy_str v = (case v of None \<Rightarrow> False | Some s \<Rightarrow> s \<noteq> [])"

definition truthy_dict :: "node_output \<Rightarrow> bool" where
  "truthy_dict d = (images d \<noteq> None \<or> other_keys d \<noteq> [])"

definition has_images :: "node_output \<Rightarrow> bool" where
  "has_images v = (case images v of None \<Rightarrow> False | Some imgs \<Rightarrow> imgs \<noteq> [])"

text \<open>\<open>entry.get("outputs", {})\<close>.\<close>

definition outputs_or_empty :: "history_entry \<Rightarrow> (string \<times> node_output) list" where
  "outputs_or_empty entry = (case outputs entry of None \<Rightarrow> [] | Some outs \<Rightarrow> outs)"

definition view_params_of :: "image_ref \<Rightarrow> view_params" where
  "view_params_of info =
     \<lparr>vp_filename = filename info,
      vp_subfolder = (case subfolder info of None \<Rightarrow> [] | Some d \<Rightarrow> d),
      vp_type = (case img_type info of None \<Rightarrow> ''output'' | Some t \<Rightarrow> t)\<rparr>"

section \<open>The masking pipeline (mask service)\<close>

text \<open>
  The configuration is read from the process environment; the model fixes the defaults of
  the source.  Times are in seconds as in the source and converted where the clock is
  touched.  A raised exception is the left injection of the result.
\<close>

definition INPUT_NODE_ID :: string where
  "INPUT_NODE_ID = ''54''"

definition OUTPUT_NODE_ID :: string where
  "OUTPUT_NODE_ID = ''455''"

definition POLL_INTERVAL_S :: nat where
  "POLL_INTERVAL_S = 5"

definition POLL_TIMEOUT_S :: nat where
  "POLL_TIMEOUT_S = 120"

datatype error = HTTPException nat | RequestError | KeyError

text \<open>
  \<open>_upload_to_comfy\<close> and \<open>_queue_prompt\<close> are taken at their boundary: the upload
  (with its retries) either yields the stamped name or raises 502; the submission raises on
  a transport or status error and raises 500 when the reply carries no prompt id.
\<close>

definition upload_to_comfy :: "engine \<Rightarrow> string \<Rightarrow> state \<Rightarrow> (error + string) \<times> state" where
  "upload_to_comfy eng original_name s =
     (case upload_reply eng (trace s) original_name of
        None \<Rightarrow> (Inl (HTTPException 502), emit (Upload original_name) s)
      | Some stamped \<Rightarrow> (Inr stamped, emit (Upload original_name) s))"

definition queue_prompt :: "engine \<Rightarrow> nat \<Rightarrow> state \<Rightarrow> (error + string) \<times> state" where
  "queue_prompt eng graph s =
     (case submit_reply eng (trace s) (cells s graph) of
        SubmitFailed \<Rightarrow> (Inl RequestError, emit (Submit (cells s graph)) s)
      | SubmitReplied pid \<Rightarrow>
          (case pid of
             None \<Rightarrow> (Inl (HTTPException 500), emit (Submit (cells s graph)) s)
           | Some p \<Rightarrow>
               if p = [] then (Inl (HTTPException 500), emit (Submit (cells s graph)) s)
               else (Inr p, emit (Submit (cells s graph)) s)))"

text \<open>
  The node the masking path reads its result from: the designated node, and when that is
  missing or an empty object the first node of the outputs whose \<open>images\<close> is non-empty.
  When the search finds nothing the variable keeps its falsy value.
\<close>

definition resolve_output_node :: "(string \<times> node_output) list \<Rightarrow> node_output option" where
  "resolve_output_node outs =
     (let node = map_of outs OUTPUT_NODE_ID in
      if (case node of None \<Rightarrow> True | Some d \<Rightarrow> \<not> truthy_dict d)
      then (case find has_images (map snd outs) of Some v \<Rightarrow> Some v | None \<Rightarrow> node)
      else node)"

definition node_ready :: "node_output option \<Rightarrow> bool" where
  "node_ready node = (case node of None \<Rightarrow> False | Some d \<Rightarrow> truthy_dict d \<and> has_images d)"

text \<open>The test of one poll in \<open>_poll_history\<close>, on the parsed body of a 200 reply.\<close>

definition history_ready :: "string \<Rightarrow> history \<Rightarrow> bool" where
  "history_ready prompt_id hist =
     (hist \<noteq> [] \<and>
      (case map_of hist prompt_id of
         None \<Rightarrow> False
       | Some entry \<Rightarrow>
           node_ready (resolve_output_node (outputs_or_empty entry))))"

text \<open>
  \<open>_poll_history\<close>: \<open>while time.time() < deadline\<close>.  A request that raises ends the
  call with that exception; a reply that is not ready is followed by the sleep.  The poll
  counter of the source only feeds the log and is left out.
\<close>

function poll_history_loop ::
  "engine \<Rightarrow> string \<Rightarrow> nat \<Rightarrow> state \<Rightarrow> (error + history) \<times> state" where
  "poll_history_loop eng prompt_id deadline s =
     (if clock s < deadline then
        (let s1 = emit (History prompt_id)
                    (advance (fst (history_reply eng (trace s) prompt_id)) s) in
         case snd (history_reply eng (trace s) prompt_id) of
           RequestFailed \<Rightarrow> (Inl RequestError, s1)
         | Response r \<Rightarrow>
             if status_code r = 200 \<and> history_ready prompt_id (json_body r)
             then (Inr (json_body r), s1)
             else poll_history_loop eng prompt_id deadline (sleep POLL_INTERVAL_S s1))
      else (Inl (HTTPException 504), s))"
  by pat_completeness auto
termination
  by (relation "measure (\<lambda>(eng, prompt_id, deadline, s). deadline - clock s)")
    (auto simp: sleep_def emit_def advance_def POLL_INTERVAL_S_def)

declare poll_history_loop.simps [simp del]

definition poll_history :: "engine \<Rightarrow> string \<Rightarrow> state \<Rightarrow> (error + history) \<times> state" where
  "poll_history eng prompt_id s = poll_history_loop eng prompt_id (clock s + 1000 * POLL_TIMEOUT_S) s"

definition fetch_first_image ::
  "engine \<Rightarrow> history \<Rightarrow> string \<Rightarrow> state \<Rightarrow> (error + string) \<times> state" where
  "fetch_first_image eng hist prompt_id s =
     (case map_of hist prompt_id of
        None \<Rightarrow> (Inl KeyError, s)
      | Some entry \<Rightarrow>
          (case outputs entry of
             None \<Rightarrow> (Inl KeyError, s)
           | Some outs \<Rightarrow>
               (case resolve_output_node outs of
                  None \<Rightarrow> (Inl (HTTPException 500), s)
                | Some node \<Rightarrow>
                    (case images node of
                       None \<Rightarrow> (Inl (HTTPException 500), s)
                     | Some [] \<Rightarrow> (Inl (HTTPException 500), s)
                     | Some (info # _) \<Rightarrow>
                         (case view_reply eng (trace s) (view_params_of info) of
                            None \<Rightarrow> (Inl RequestError, emit (View (view_params_of info)) s)
                          | Some content \<Rightarrow> (Inr content, emit (View (view_params_of info)) s))))))"

text \<open>
  The mutation inside \<open>_process_single_image\<close>, on the graph object it was handed:
  \<open>node = graph.get(INPUT_NODE_ID) or graph.get(int(INPUT_NODE_ID))\<close>, an error when there
  is none, else \<open>node.setdefault("inputs", {})["image"] = comfy_name\<close>.  The keys of a
  graph loaded from JSON are strings, so the lookup under the integer finds nothing.
\<close>

definition set_input_image :: "nat \<Rightarrow> string \<Rightarrow> state \<Rightarrow> (error + unit) \<times> state" where
  "set_input_image graph comfy_name s =
     (case map_of (cells s graph) INPUT_NODE_ID of
        None \<Rightarrow> (Inl (HTTPException 500), s)
      | Some nd \<Rightarrow>
          (Inr (),
           s\<lparr>cells := (cells s)(graph :=
               AList.update INPUT_NODE_ID
                 (nd\<lparr>inputs := Some (AList.update ''image'' (JStr comfy_name)
                                      (case inputs nd of None \<Rightarrow> [] | Some ins \<Rightarrow> ins))\<rparr>)
                 (cells s graph))\<rparr>))"

definition process_single_image ::
  "engine \<Rightarrow> string \<Rightarrow> nat \<Rightarrow> state \<Rightarrow> (error + string \<times> string) \<times> state" where
  "process_single_image eng original_name graph s =
     (case upload_to_comfy eng original_name s of
        (Inl e, s1) \<Rightarrow> (Inl e, s1)
      | (Inr comfy_name, s1) \<Rightarrow>
     (case set_input_image graph comfy_name s1 of
        (Inl e, s2) \<Rightarrow> (Inl e, s2)
      | (Inr _, s2) \<Rightarrow>
     (case queue_prompt eng graph s2 of
        (Inl e, s3) \<Rightarrow> (Inl e, s3)
      | (Inr pid, s3) \<Rightarrow>
     (case poll_history eng pid s3 of
        (Inl e, s4) \<Rightarrow> (Inl e, s4)
      | (Inr hist, s4) \<Rightarrow>
     (case fetch_first_image eng hist pid s4 of
        (Inl e, s5) \<Rightarrow> (Inl e, s5)
      | (Inr out_bytes, s5) \<Rightarrow> (Inr (original_name, out_bytes), s5))))))"

text \<open>
  \<open>process_image\<close>: the workflow file is loaded into a new graph object.  An archive is
  processed image by image, each on a deep copy of that object, and a failing image is
  skipped; a single image is processed on the loaded object itself.  The archive arrives
  as the list of image names it holds (\<open>None\<close> when it cannot be read).
\<close>

datatype mask_result = SingleResult string string | ZipResult "(string \<times> string) list"

fun process_zip_images ::
  "engine \<Rightarrow> nat \<Rightarrow> string list \<Rightarrow> state \<Rightarrow> (string \<times> string) list \<times> state" where
  "process_zip_images eng graph [] s = ([], s)"
| "process_zip_images eng graph (fname # rest) s =
     (case process_single_image eng fname (fst (deep_copy graph s)) (snd (deep_copy graph s)) of
        (Inl e, s1) \<Rightarrow> process_zip_images eng graph rest s1
      | (Inr result, s1) \<Rightarrow>
          (case process_zip_images eng graph rest s1 of
             (processed_images, s2) \<Rightarrow> (result # processed_images, s2)))"

definition is_zip_file :: "string \<Rightarrow> bool" where
  "is_zip_file fname = endswith (lower fname) ''.zip''"

definition load_graph :: "graph \<Rightarrow> state \<Rightarrow> nat \<times> state" where
  "load_graph g s = (fresh s, s\<lparr>cells := (cells s)(fresh s := g), fresh := fresh s + 1\<rparr>)"

definition process_image ::
  "engine \<Rightarrow> graph option \<Rightarrow> string \<Rightarrow> string list option \<Rightarrow> state
     \<Rightarrow> (error + mask_result) \<times> state" where
  "process_image eng workflow_json original_name archive s =
     (case workflow_json of
        None \<Rightarrow> (Inl (HTTPException 500), s)
      | Some g \<Rightarrow>
          (let graph = fst (load_graph g s); s0 = snd (load_graph g s) in
           if is_zip_file original_name then
             (case archive of
                None \<Rightarrow> (Inl (HTTPException 400), s0)
              | Some imgs \<Rightarrow>
                  if imgs = [] then (Inl (HTTPException 400), s0)
                  else (case process_zip_images eng graph imgs s0 of
                          (processed_images, s1) \<Rightarrow>
                            if processed_images = [] then (Inl (HTTPException 500), s1)
                            else (Inr (ZipResult processed_images), s1)))
           else (case process_single_image eng original_name graph s0 of
                   (Inl e, s1) \<Rightarrow> (Inl e, s1)
                 | (Inr (fname, out_bytes), s1) \<Rightarrow> (Inr (SingleResult fname out_bytes), s1))))"

section \<open>The background-replace pipeline (workflow service)\<close>

definition POLLING_TIMEOUT :: nat where
  "POLLING_TIMEOUT = 500"

definition POLLING_INTERVAL :: nat where
  "POLLING_INTERVAL = 5"

definition background_image_path :: string where
  "background_image_path = ''Final Workflow n8n Working/WhiteBackground_Template.png''"

subsection \<open>Upload and submission, at their boundary\<close>

text \<open>
  \<open>upload_image_with_retry\<close> returns the uploaded name or \<open>None\<close> (file missing, or all
  attempts failed); \<open>submit_workflow_to_comfyui\<close> returns the prompt id or \<open>None\<close>.
\<close>

definition upload_image_with_retry :: "engine \<Rightarrow> string \<Rightarrow> state \<Rightarrow> string option \<times> state" where
  "upload_image_with_retry eng image_path s =
     (upload_reply eng (trace s) image_path, emit (Upload image_path) s)"

definition submit_workflow_to_comfyui :: "engine \<Rightarrow> nat \<Rightarrow> state \<Rightarrow> string option \<times> state" where
  "submit_workflow_to_comfyui eng workflow s =
     (case submit_reply eng (trace s) (cells s workflow) of
        SubmitFailed \<Rightarrow> (None, emit (Submit (cells s workflow)) s)
      | SubmitReplied pid \<Rightarrow>
          (if truthy_str pid then pid else None, emit (Submit (cells s workflow)) s))"

subsection \<open>The graph mutator\<close>

text \<open>
  \<open>update_workflow\<close> copies the template and then runs five guarded assignments
  \<open>if id in updated_workflow: updated_workflow[id]['inputs'][key] = value\<close> in a fixed
  order.  A node without \<open>inputs\<close> raises \<open>KeyError\<close>, which the function turns into
  the result \<open>None\<close>; the assignments made before it stay in the abandoned copy.
\<close>

definition assign_node_input :: "nat \<Rightarrow> string \<Rightarrow> string \<Rightarrow> jvalue \<Rightarrow> state \<Rightarrow> bool \<times> state" where
  "assign_node_input a node_id key v s =
     (case map_of (cells s a) node_id of
        None \<Rightarrow> (False, s)
      | Some nd \<Rightarrow>
          (case inputs nd of
             None \<Rightarrow> (False, s)
           | Some ins \<Rightarrow>
               (True,
                s\<lparr>cells := (cells s)(a :=
                    AList.update node_id (nd\<lparr>inputs := Some (AList.update key v ins)\<rparr>)
                      (cells s a))\<rparr>)))"

fun apply_assignments ::
  "nat \<Rightarrow> (string \<times> string \<times> jvalue) list \<Rightarrow> state \<Rightarrow> bool \<times> state" where
  "apply_assignments a [] s = (True, s)"
| "apply_assignments a ((node_id, key, v) # rest) s =
     (if map_of (cells s a) node_id \<noteq> None then
        (case assign_node_input a node_id key v s of
           (True, s1) \<Rightarrow> apply_assignments a rest s1
         | (False, s1) \<Rightarrow> (False, s1))
      else apply_assignments a rest s)"

text \<open>\<open>g[node_id]['inputs'][key]\<close>, when all three exist.\<close>

definition node_input :: "graph \<Rightarrow> string \<Rightarrow> string \<Rightarrow> jvalue option" where
  "node_input g node_id key =
     (case map_of g node_id of
        None \<Rightarrow> None
      | Some nd \<Rightarrow> (case inputs nd of None \<Rightarrow> None | Some ins \<Rightarrow> map_of ins key))"

text \<open>A node that is present but has no \<open>inputs\<close> entry makes an assignment to it fail.\<close>

definition lacks_inputs :: "graph \<Rightarrow> string \<Rightarrow> bool" where
  "lacks_inputs g node_id =
     (case map_of g node_id of None \<Rightarrow> False | Some nd \<Rightarrow> inputs nd = None)"

definition DEFAULT_PROMPT :: string where
  "DEFAULT_PROMPT = ''Generate a scene with the provided image and style''"

definition workflow_assignments ::
  "string \<Rightarrow> string \<Rightarrow> string \<Rightarrow> string \<Rightarrow> string option \<Rightarrow> (string \<times> string \<times> jvalue) list" where
  "workflow_assignments input_filename mask_filename bg_filename style_filename prompt_text =
     [(''454'', ''image'', JStr input_filename),
      (''439'', ''image'', JStr mask_filename),
      (''256'', ''image'', JStr bg_filename),
      (''110'', ''image'', JStr style_filename),
      (''448'', ''string'',
         JStr (case prompt_text of None \<Rightarrow> DEFAULT_PROMPT | Some t \<Rightarrow> t))]"

definition update_workflow ::
  "nat \<Rightarrow> string \<Rightarrow> string \<Rightarrow> string \<Rightarrow> string \<Rightarrow> string option \<Rightarrow> state \<Rightarrow> nat option \<times> state" where
  "update_workflow workflow input_filename mask_filename bg_filename style_filename prompt_text s =
     (case apply_assignments (fst (deep_copy workflow s))
             (workflow_assignments input_filename mask_filename bg_filename style_filename prompt_text)
             (snd (deep_copy workflow s)) of
        (True, s1) \<Rightarrow> (Some (fst (deep_copy workflow s)), s1)
      | (False, s1) \<Rightarrow> (None, s1))"

subsection \<open>Polling, output resolution and download\<close>

text \<open>
  One poll of \<open>download_processed_image\<close>: a transport error, an error status
  (\<open>raise_for_status\<close> raises for 400 to 599) and a body without the prompt id all leave the
  loop running; a body that has the prompt id as a key ends it.
\<close>

definition history_if_present :: "poll_outcome \<Rightarrow> string \<Rightarrow> history option" where
  "history_if_present outcome prompt_id =
     (case outcome of
        RequestFailed \<Rightarrow> None
      | Response r \<Rightarrow>
          if 400 \<le> status_code r \<and> status_code r < 600 then None
          else if map_of (json_body r) prompt_id \<noteq> None then Some (json_body r)
          else None)"

datatype poll_result = Completed history | TimedOut | Exhausted

text \<open>
  \<open>for attempt in range(max_attempts)\<close> with its \<open>else\<close> branch (\<open>Exhausted\<close>): the
  last argument but one counts the attempts that remain.
\<close>

fun completion_loop ::
  "engine \<Rightarrow> string \<Rightarrow> nat \<Rightarrow> nat \<Rightarrow> state \<Rightarrow> poll_result \<times> state" where
  "completion_loop eng prompt_id start_time 0 s = (Exhausted, s)"
| "completion_loop eng prompt_id start_time (Suc remaining) s =
     (case history_if_present (snd (history_reply eng (trace s) prompt_id)) prompt_id of
        Some hist \<Rightarrow>
          (Completed hist,
           emit (History prompt_id) (advance (fst (history_reply eng (trace s) prompt_id)) s))
      | None \<Rightarrow>
          if 1000 * POLLING_TIMEOUT
               \<le> clock (advance (fst (history_reply eng (trace s) prompt_id)) s) - start_time
          then (TimedOut,
                emit (History prompt_id) (advance (fst (history_reply eng (trace s) prompt_id)) s))
          else completion_loop eng prompt_id start_time remaining
                 (sleep POLLING_INTERVAL
                    (emit (History prompt_id)
                       (advance (fst (history_reply eng (trace s) prompt_id)) s))))"

definition wait_for_completion :: "engine \<Rightarrow> string \<Rightarrow> state \<Rightarrow> poll_result \<times> state" where
  "wait_for_completion eng prompt_id s =
     completion_loop eng prompt_id (clock s) (POLLING_TIMEOUT div POLLING_INTERVAL) s"

text \<open>
  The node \<open>download_processed_image\<close> reads its images from: node 15, and when that is
  missing, empty or without an \<open>images\<close> key, the first node whose \<open>images\<close> is
  non-empty.  \<open>None\<close> is the error return "no output images found in any node".
\<close>

definition resolve_preview_node :: "(string \<times> node_output) list \<Rightarrow> node_output option" where
  "resolve_preview_node outs =
     (let preview_node =
            (case map_of outs ''15'' of
               None \<Rightarrow> \<lparr>images = None, other_keys = []\<rparr>
             | Some d \<Rightarrow> d) in
      if \<not> truthy_dict preview_node \<or> images preview_node = None then
        (let fallback =
               (case find has_images (map snd outs) of
                  None \<Rightarrow> preview_node
                | Some v \<Rightarrow> v) in
         if \<not> truthy_dict fallback \<or> images fallback = None then None else Some fallback)
      else Some preview_node)"

definition variant_path_of :: "string \<Rightarrow> nat \<Rightarrow> string" where
  "variant_path_of output_path idx =
     (if idx = 0 then output_path
      else path_join (dirname output_path)
             (fst (splitext (basename output_path)) @ ''_variant_'' @ str_nat (idx + 1)
                @ snd (splitext output_path)))"

text \<open>
  The download loop over \<open>enumerate(images[:4])\<close>.  A variant whose request or whose
  write raises is logged and skipped; \<open>downloaded_count\<close> counts the others.
\<close>

fun download_variants ::
  "engine \<Rightarrow> string \<Rightarrow> nat \<Rightarrow> image_ref list \<Rightarrow> nat \<Rightarrow> state \<Rightarrow> nat \<times> state" where
  "download_variants eng output_path idx [] downloaded_count s = (downloaded_count, s)"
| "download_variants eng output_path idx (image_info # rest) downloaded_count s =
     (case view_reply eng (trace s) (view_params_of image_info) of
        None \<Rightarrow>
          download_variants eng output_path (idx + 1) rest downloaded_count
            (emit (Log (VariantFailed (idx + 1))) (emit (View (view_params_of image_info)) s))
      | Some content \<Rightarrow>
          if write_reply eng (trace (emit (View (view_params_of image_info)) s))
               (variant_path_of output_path idx)
          then download_variants eng output_path (idx + 1) rest (downloaded_count + 1)
                 (emit (Log (VariantDownloaded (idx + 1) (variant_path_of output_path idx)))
                    (emit (WriteFile (variant_path_of output_path idx))
                       (emit (View (view_params_of image_info)) s)))
          else download_variants eng output_path (idx + 1) rest downloaded_count
                 (emit (Log (VariantFailed (idx + 1)))
                    (emit (View (view_params_of image_info)) s)))"

definition download_processed_image ::
  "engine \<Rightarrow> string \<Rightarrow> string \<Rightarrow> state \<Rightarrow> bool \<times> state" where
  "download_processed_image eng prompt_id output_path s =
     (case wait_for_completion eng prompt_id s of
        (TimedOut, s1) \<Rightarrow> (False, s1)
      | (Exhausted, s1) \<Rightarrow> (False, s1)
      | (Completed hist, s1) \<Rightarrow>
          (case map_of hist prompt_id of
             None \<Rightarrow> (False, s1)
           | Some entry \<Rightarrow>
               (case resolve_preview_node (outputs_or_empty entry) of
                  None \<Rightarrow> (False, s1)
                | Some preview_node \<Rightarrow>
                    (case images preview_node of
                       None \<Rightarrow> (False, s1)
                     | Some imgs \<Rightarrow>
                         (case download_variants eng output_path 0 (take 4 imgs) 0 s1 of
                            (downloaded_count, s2) \<Rightarrow> (0 < downloaded_count, s2))))))"

subsection \<open>Batch prerequisites: style names and style files\<close>

text \<open>
  \<open>prompts_data\<close> maps a product to its settings; an entry that is not an object is
  skipped.  The file system is the snapshot the batch reads: whether the style folder
  exists, what \<open>os.walk\<close> lists under it (directory and file names), and what
  \<open>os.listdir\<close> lists in the input and mask folders (\<open>None\<close> when the call raises).
\<close>

datatype product_data = NotADict | Product "string option" "string option"

type_synonym prompts = "(string \<times> product_data) list"

record file_system =
  style_folder_exists :: bool
  style_walk :: "(string \<times> string list) list"
  input_listing :: "string list option"
  mask_listing :: "string list option"

text \<open>
  \<open>get_required_style_images\<close> collects the non-empty style names into a set and
  returns it as a list.  Python leaves the order of that list open; the model lists each
  name once, and no statement below depends on the order.
\<close>

definition style_of :: "product_data \<Rightarrow> string list" where
  "style_of pd =
     (case pd of
        NotADict \<Rightarrow> []
      | Product text_entry style_entry \<Rightarrow>
          (case style_entry of None \<Rightarrow> [] | Some st \<Rightarrow> if st = [] then [] else [st]))"

definition get_required_style_images :: "prompts \<Rightarrow> string list" where
  "get_required_style_images prompts_data = remdups (concat (map (\<lambda>kv. style_of (snd kv)) prompts_data))"

definition style_files_of :: "file_system \<Rightarrow> string list" where
  "style_files_of fs =
     concat (map (\<lambda>rf. map (path_join (fst rf)) (filter is_image_name (snd rf))) (style_walk fs))"

definition style_score :: "string \<Rightarrow> string \<Rightarrow> nat" where
  "style_score style_name file_path =
     (let name_without_ext = fst (splitext (basename file_path)) in
      (if py_in (lower style_name) (lower name_without_ext) then 1 else 0)
      + (if py_in (lower name_without_ext) (lower style_name) then 1 else 0)
      + (if lower style_name = lower name_without_ext then 10 else 0))"

fun best_style_match :: "string \<Rightarrow> string list \<Rightarrow> string option \<Rightarrow> nat \<Rightarrow> string option \<times> nat" where
  "best_style_match style_name [] best_match best_score = (best_match, best_score)"
| "best_style_match style_name (file_path # rest) best_match best_score =
     (if best_score < style_score style_name file_path
      then best_style_match style_name rest (Some file_path) (style_score style_name file_path)
      else best_style_match style_name rest best_match best_score)"

fun match_styles :: "string list \<Rightarrow> string list \<Rightarrow> (string \<times> string) list \<Rightarrow> (string \<times> string) list" where
  "match_styles style_files [] style_matches = style_matches"
| "match_styles style_files (style_name # rest) style_matches =
     (case best_style_match style_name style_files None 0 of
        (Some best, best_score) \<Rightarrow>
          if best \<noteq> [] \<and> 0 < best_score
          then match_styles style_files rest (AList.update style_name best style_matches)
          else match_styles style_files rest style_matches
      | (None, best_score) \<Rightarrow> match_styles style_files rest style_matches)"

definition find_style_file_matches :: "file_system \<Rightarrow> string list \<Rightarrow> (string \<times> string) list" where
  "find_style_file_matches fs required_styles =
     (if \<not> style_folder_exists fs then []
      else match_styles (style_files_of fs) required_styles [])"

fun upload_styles ::
  "engine \<Rightarrow> (string \<times> string) list \<Rightarrow> (string \<times> string) list \<Rightarrow> string list \<Rightarrow> state
     \<Rightarrow> ((string \<times> string) list \<times> string list) \<times> state" where
  "upload_styles eng [] style_images upload_failures s = ((style_images, upload_failures), s)"
| "upload_styles eng ((style_name, file_path) # rest) style_images upload_failures s =
     (if truthy_str (fst (upload_image_with_retry eng file_path s))
      then upload_styles eng rest
             (AList.update style_name
                (case fst (upload_image_with_retry eng file_path s) of None \<Rightarrow> [] | Some n \<Rightarrow> n)
                style_images)
             upload_failures (snd (upload_image_with_retry eng file_path s))
      else upload_styles eng rest style_images (upload_failures @ [style_name])
             (snd (upload_image_with_retry eng file_path s)))"

subsection \<open>Pairing inputs with masks\<close>

definition find_mask :: "string list \<Rightarrow> string \<Rightarrow> string option" where
  "find_mask mask_files image_file =
     (let image_base = fst (splitext image_file);
          mask_jpg = image_base @ ''.jpg'';
          mask_png = image_base @ ''.png'' in
      if mask_jpg \<in> set mask_files \<or> mask_png \<in> set mask_files
      then Some (if mask_jpg \<in> set mask_files then mask_jpg else mask_png)
      else None)"

text \<open>
  The pairing loop, with the two log lines it writes: the pairs in input order, and one
  warning for every input without a mask.
\<close>

fun match_pairs ::
  "string list \<Rightarrow> string list \<Rightarrow> (string \<times> string) list \<Rightarrow> log_entry list
     \<Rightarrow> (string \<times> string) list \<times> log_entry list" where
  "match_pairs mask_files [] matching_pairs logged = (matching_pairs, logged)"
| "match_pairs mask_files (image_file # rest) matching_pairs logged =
     (case find_mask mask_files image_file of
        Some mask_file \<Rightarrow>
          match_pairs mask_files rest (matching_pairs @ [(image_file, mask_file)])
            (logged @ [MatchingPair image_file mask_file])
      | None \<Rightarrow> match_pairs mask_files rest matching_pairs (logged @ [NoMaskFound image_file]))"

definition pair_images ::
  "string list \<Rightarrow> string list \<Rightarrow> (string \<times> string) list \<times> log_entry list" where
  "pair_images input_names mask_names =
     match_pairs (filter is_image_name mask_names) (filter is_image_name input_names) [] []"

text \<open>The inputs a pairing run skipped, read off its warnings.\<close>

definition skipped_inputs :: "log_entry list \<Rightarrow> string list" where
  "skipped_inputs logged = concat (map (\<lambda>e. case e of NoMaskFound f \<Rightarrow> [f] | _ \<Rightarrow> []) logged)"

subsection \<open>The batch\<close>

definition default_settings :: "prompts \<Rightarrow> string \<times> string" where
  "default_settings prompts_data =
     (case prompts_data of
        [] \<Rightarrow> (DEFAULT_PROMPT, ''Urban street'')
      | kv # _ \<Rightarrow>
          (case snd kv of
             NotADict \<Rightarrow> (DEFAULT_PROMPT, ''Urban street'')
           | Product text_entry style_entry \<Rightarrow>
               ((case text_entry of None \<Rightarrow> DEFAULT_PROMPT | Some t \<Rightarrow> t),
                (case style_entry of None \<Rightarrow> ''Urban street'' | Some st \<Rightarrow> st))))"

definition choose_style :: "(string \<times> string) list \<Rightarrow> string \<Rightarrow> string" where
  "choose_style style_images default_style =
     (if map_of style_images default_style = None
      then (case style_images of [] \<Rightarrow> ''Urban street'' | kv # _ \<Rightarrow> fst kv)
      else default_style)"

text \<open>
  One pass of the per-pair loop body; the result says whether \<open>successful_images\<close> or
  \<open>failed_images\<close> is incremented.  Both uploads are made before either is tested.
\<close>

definition process_pair ::
  "engine \<Rightarrow> nat \<Rightarrow> string \<Rightarrow> string \<Rightarrow> string \<Rightarrow> string \<Rightarrow> string \<Rightarrow> string
     \<Rightarrow> string \<times> string \<Rightarrow> state \<Rightarrow> bool \<times> state" where
  "process_pair eng workflow input_folder mask_folder output_dir bg_filename style_filename
       default_prompt pair s =
     (case upload_image_with_retry eng (path_join input_folder (fst pair)) s of
        (input_filename, s1) \<Rightarrow>
     (case upload_image_with_retry eng (path_join mask_folder (snd pair)) s1 of
        (mask_filename, s2) \<Rightarrow>
     (case (input_filename, mask_filename) of
        (Some inp, Some msk) \<Rightarrow>
          if inp = [] \<or> msk = [] then (False, emit (Log (PairFailed (fst pair) UploadFailure)) s2)
          else
            (case update_workflow workflow inp msk bg_filename style_filename
                    (Some default_prompt) s2 of
               (None, s3) \<Rightarrow> (False, emit (Log (PairFailed (fst pair) UpdateFailure)) s3)
             | (Some updated_workflow, s3) \<Rightarrow>
                 if cells s3 updated_workflow = []
                 then (False, emit (Log (PairFailed (fst pair) UpdateFailure)) s3)
                 else
                   (case submit_workflow_to_comfyui eng updated_workflow s3 of
                      (None, s4) \<Rightarrow> (False, emit (Log (PairFailed (fst pair) SubmitFailure)) s4)
                    | (Some prompt_id, s4) \<Rightarrow>
                        (case download_processed_image eng prompt_id
                                (path_join output_dir (''processed_'' @ fst pair)) s4 of
                           (True, s5) \<Rightarrow> (True, emit (Log (PairProcessed (fst pair))) s5)
                         | (False, s5) \<Rightarrow>
                             (False, emit (Log (PairFailed (fst pair) DownloadFailure)) s5))))
      | _ \<Rightarrow> (False, emit (Log (PairFailed (fst pair) UploadFailure)) s2))))"

fun process_pairs ::
  "engine \<Rightarrow> nat \<Rightarrow> string \<Rightarrow> string \<Rightarrow> string \<Rightarrow> string \<Rightarrow> string \<Rightarrow> string
     \<Rightarrow> (string \<times> string) list \<Rightarrow> nat \<Rightarrow> nat \<Rightarrow> state \<Rightarrow> (nat \<times> nat) \<times> state" where
  "process_pairs eng workflow input_folder mask_folder output_dir bg_filename style_filename
       default_prompt [] successful_images failed_images s
     = ((successful_images, failed_images), s)"
| "process_pairs eng workflow input_folder mask_folder output_dir bg_filename style_filename
       default_prompt (pair # rest) successful_images failed_images s =
     (case process_pair eng workflow input_folder mask_folder output_dir bg_filename
             style_filename default_prompt pair s of
        (True, s1) \<Rightarrow>
          process_pairs eng workflow input_folder mask_folder output_dir bg_filename
            style_filename default_prompt rest (successful_images + 1) failed_images s1
      | (False, s1) \<Rightarrow>
          process_pairs eng workflow input_folder mask_folder output_dir bg_filename
            style_filename default_prompt rest successful_images (failed_images + 1) s1)"

datatype batch_error =
    BackgroundUploadFailed
  | NoStyleImages
  | MissingStyles "string list"
  | StyleUploadsFailed "string list"
  | ListingFailed
  | NoMatchingPairs
  | StyleLookupFailed
  | MakedirsFailed
  | NoImagesProcessed

text \<open>
  \<open>process_images_api\<close>.  Steps 1 to 4 are the batch prerequisites; each of their
  failures raises before the folders are listed.  The per-pair loop follows, and the batch
  raises at the end when no pair succeeded.
\<close>

definition run_pairs ::
  "engine \<Rightarrow> file_system \<Rightarrow> nat \<Rightarrow> prompts \<Rightarrow> string \<Rightarrow> string \<Rightarrow> string \<Rightarrow> string
     \<Rightarrow> (string \<times> string) list \<Rightarrow> state \<Rightarrow> (batch_error + bool) \<times> state" where
  "run_pairs eng fs workflow prompts_data input_folder mask_folder output_folder bg_filename
       style_images s =
     (case (input_listing fs, mask_listing fs) of
        (Some input_names, Some mask_names) \<Rightarrow>
          (case pair_images input_names mask_names of
             (matching_pairs, logged) \<Rightarrow>
               if matching_pairs = []
               then (Inl NoMatchingPairs, s\<lparr>trace := trace s @ map Log logged\<rparr>)
               else
                 (case map_of style_images
                         (choose_style style_images (snd (default_settings prompts_data))) of
                    None \<Rightarrow> (Inl StyleLookupFailed, s\<lparr>trace := trace s @ map Log logged\<rparr>)
                  | Some style_filename \<Rightarrow>
                      if \<not> makedirs_reply eng (trace s @ map Log logged)
                             (path_join output_folder ''processed_images'')
                      then (Inl MakedirsFailed,
                            emit (Makedirs (path_join output_folder ''processed_images''))
                              (s\<lparr>trace := trace s @ map Log logged\<rparr>))
                      else
                        (case process_pairs eng workflow input_folder mask_folder
                                (path_join output_folder ''processed_images'') bg_filename
                                style_filename (fst (default_settings prompts_data))
                                matching_pairs 0 0
                                (emit (Makedirs (path_join output_folder ''processed_images''))
                                   (s\<lparr>trace := trace s @ map Log logged\<rparr>)) of
                           ((successful_images, failed_images), s1) \<Rightarrow>
                             if successful_images = 0 then (Inl NoImagesProcessed, s1)
                             else (Inr True, s1))))
      | _ \<Rightarrow> (Inl ListingFailed, s))"

definition process_images_api ::
  "engine \<Rightarrow> file_system \<Rightarrow> nat \<Rightarrow> prompts \<Rightarrow> string \<Rightarrow> string \<Rightarrow> string \<Rightarrow> state
     \<Rightarrow> (batch_error + bool) \<times> state" where
  "process_images_api eng fs workflow prompts_data input_folder mask_folder output_folder s =
     (case upload_image_with_retry eng background_image_path s of
        (bg, s1) \<Rightarrow>
          if \<not> truthy_str bg then (Inl BackgroundUploadFailed, s1)
          else if get_required_style_images prompts_data = [] then (Inl NoStyleImages, s1)
          else if filter (\<lambda>style. map_of (find_style_file_matches fs (get_required_style_images prompts_data)) style = None)
                    (get_required_style_images prompts_data) \<noteq> []
          then (Inl (MissingStyles
                  (filter (\<lambda>style. map_of (find_style_file_matches fs (get_required_style_images prompts_data)) style = None)
                     (get_required_style_images prompts_data))), s1)
          else
            (case upload_styles eng
                    (find_style_file_matches fs (get_required_style_images prompts_data)) [] [] s1 of
               ((style_images, upload_failures), s2) \<Rightarrow>
                 if upload_failures \<noteq> [] then (Inl (StyleUploadsFailed upload_failures), s2)
                 else run_pairs eng fs workflow prompts_data input_folder mask_folder
                        output_folder (case bg of None \<Rightarrow> [] | Some b \<Rightarrow> b) style_images s2))"

section \<open>Reading a trace\<close>

text \<open>
  What a run did is read off its trace: the images requested, the files written, and how
  many variants and pairs were logged as done or failed.
\<close>

fun view_requests :: "event list \<Rightarrow> view_params list" where
  "view_requests [] = []"
| "view_requests (View q # tr) = q # view_requests tr"
| "view_requests (e # tr) = view_requests tr"

fun written_files :: "event list \<Rightarrow> string list" where
  "written_files [] = []"
| "written_files (WriteFile p # tr) = p # written_files tr"
| "written_files (e # tr) = written_files tr"

fun uploads :: "event list \<Rightarrow> string list" where
  "uploads [] = []"
| "uploads (Upload p # tr) = p # uploads tr"
| "uploads (e # tr) = uploads tr"

fun is_variant_downloaded :: "event \<Rightarrow> bool" where
  "is_variant_downloaded (Log (VariantDownloaded n p)) = True"
| "is_variant_downloaded e = False"

fun is_variant_failed :: "event \<Rightarrow> bool" where
  "is_variant_failed (Log (VariantFailed n)) = True"
| "is_variant_failed e = False"

fun is_pair_processed :: "event \<Rightarrow> bool" where
  "is_pair_processed (Log (PairProcessed f)) = True"
| "is_pair_processed e = False"

fun is_pair_failed :: "event \<Rightarrow> bool" where
  "is_pair_failed (Log (PairFailed f why)) = True"
| "is_pair_failed e = False"

definition count_events :: "(event \<Rightarrow> bool) \<Rightarrow> event list \<Rightarrow> nat" where
  "count_events P tr = length (filter P tr)"

text \<open>
  The events of the batch prerequisites: uploads only.  The events of one pair's
  processing before its closing log line: everything but a pair's log line.
\<close>

fun is_upload :: "event \<Rightarrow> bool" where
  "is_upload (Upload p) = True"
| "is_upload e = False"

definition inner_event :: "event \<Rightarrow> bool" where
  "inner_event e = (\<not> is_pair_processed e \<and> \<not> is_pair_failed e)"

text \<open>The heap after a step holds every object it held before, unchanged.\<close>

definition heap_extends :: "state \<Rightarrow> state \<Rightarrow> bool" where
  "heap_extends s s' = (fresh s \<le> fresh s' \<and> (\<forall>a. a < fresh s \<longrightarrow> cells s' a = cells s a))"

text \<open>
  The steps a polling run is made of: the state right after one history request, and the
  state after a request followed by the sleep of the loop.  \<open>reply_at\<close> is the answer
  the engine gives to a request sent from a state.
\<close>

definition reply_at :: "engine \<Rightarrow> string \<Rightarrow> state \<Rightarrow> poll_outcome" where
  "reply_at eng prompt_id s = snd (history_reply eng (trace s) prompt_id)"

definition polled :: "engine \<Rightarrow> string \<Rightarrow> state \<Rightarrow> state" where
  "polled eng prompt_id s =
     emit (History prompt_id) (advance (fst (history_reply eng (trace s) prompt_id)) s)"

definition poll_round :: "engine \<Rightarrow> string \<Rightarrow> nat \<Rightarrow> state \<Rightarrow> state" where
  "poll_round eng prompt_id interval s = sleep interval (polled eng prompt_id s)"

text \<open>
  Completion of a job as the data model words it, for one reply of the history endpoint:
  the reply has status 200, the job id is a key of the history, and the designated output
  node, or when that node is missing or an empty object some node, has a non-empty
  \<open>images\<close> list.
\<close>

definition job_complete :: "string \<Rightarrow> http_response \<Rightarrow> bool" where
  "job_complete prompt_id r =
     (status_code r = 200 \<and>
      (\<exists>entry. map_of (json_body r) prompt_id = Some entry \<and>
         (case map_of (outputs_or_empty entry) OUTPUT_NODE_ID of
            None \<Rightarrow> \<exists>v \<in> set (map snd (outputs_or_empty entry)). has_images v
          | Some d \<Rightarrow>
              if truthy_dict d then has_images d
              else \<exists>v \<in> set (map snd (outputs_or_empty entry)). has_images v)))"

section \<open>Concrete inputs\<close>

text \<open>
  An engine on which every call succeeds at once: uploads are stored under a prefixed
  name, a submission is answered with the job id \<open>job1\<close>, every history request takes
  200 ms and returns the given response, and every image can be fetched and written.  The
  examples vary single replies of it.
\<close>

definition example_engine :: "http_response \<Rightarrow> engine" where
  "example_engine reply =
     \<lparr>upload_reply = (\<lambda>tr p. Some (''up_'' @ basename p)),
      submit_reply = (\<lambda>tr g. SubmitReplied (Some ''job1'')),
      history_reply = (\<lambda>tr pid. (200, Response reply)),
      view_reply = (\<lambda>tr p. Some ''PNG''),
      write_reply = (\<lambda>tr p. True),
      makedirs_reply = (\<lambda>tr p. True)\<rparr>"

definition example_image :: "string \<Rightarrow> image_ref" where
  "example_image n = \<lparr>filename = n, subfolder = None, img_type = None\<rparr>"

definition images_node :: "string list \<Rightarrow> node_output" where
  "images_node names = \<lparr>images = Some (map example_image names), other_keys = []\<rparr>"

definition ok_response :: "(string \<times> node_output) list option \<Rightarrow> http_response" where
  "ok_response outs = \<lparr>status_code = 200, json_body = [(''job1'', \<lparr>outputs = outs\<rparr>)]\<rparr>"

definition example_graph :: graph where
  "example_graph =
     [(''454'', \<lparr>class_type = ''LoadImage'', inputs = Some [(''image'', JStr ''input.png'')]\<rparr>),
      (''439'', \<lparr>class_type = ''LoadImage'', inputs = Some [(''image'', JStr ''mask.png'')]\<rparr>),
      (''256'', \<lparr>class_type = ''LoadImage'', inputs = Some [(''image'', JStr ''bg.png'')]\<rparr>),
      (''448'', \<lparr>class_type = ''String'', inputs = Some [(''string'', JStr ''old prompt'')]\<rparr>),
      (''54'', \<lparr>class_type = ''LoadImage'', inputs = Some [(''image'', JStr ''x.png'')]\<rparr>),
      (''15'', \<lparr>class_type = ''PreviewImage'', inputs = Some [(''images'', JList [JStr ''8'', JInt 0])]\<rparr>)]"

text \<open>A state whose only object is the template \<open>g\<close>, at address 0.\<close>

definition example_state :: "graph \<Rightarrow> state" where
  "example_state g = \<lparr>cells = (\<lambda>a. if a = 0 then g else []), fresh = 1, clock = 0, trace = []\<rparr>"

text \<open>
  An engine whose job is still running at the first history request (the history does not
  have the job yet) and finished, with one mask image on the designated node, from the
  second request on.
\<close>

definition finished_response :: http_response where
  "finished_response = ok_response (Some [(''455'', images_node [''m.png''])])"

definition warming_engine :: engine where
  "warming_engine =
     (example_engine finished_response)
       \<lparr>history_reply := (\<lambda>tr pid.
          (200, Response (if tr = [] then \<lparr>status_code = 200, json_body = []\<rparr>
                          else finished_response)))\<rparr>"

text \<open>A masking workflow that has no node \<open>54\<close>.\<close>

definition graph_without_input_node :: graph where
  "graph_without_input_node =
     [(''455'', \<lparr>class_type = ''SaveImage'', inputs = Some [(''images'', JList [JStr ''54'', JInt 0])]\<rparr>)]"

text \<open>A finished compositing job whose preview node exposes five images.\<close>

definition five_images_response :: http_response where
  "five_images_response =
     ok_response (Some [(''15'', images_node [''v1.png'', ''v2.png'', ''v3.png'', ''v4.png'', ''v5.png''])])"

section \<open>Properties of the polling loops, the resolvers and the pairing\<close>




lemma find_first:
  "(\<forall>x \<in> set pre. \<not> P x) \<Longrightarrow> P v \<Longrightarrow> find P (pre @ v # post) = Some v"
  by (induction pre) auto

lemma find_has_images_first:
  assumes "outs = pre @ (k, v) # post" "has_images v" "\<forall>kv \<in> set pre. \<not> has_images (snd kv)"
  shows "find has_images (map snd outs) = Some v"
  using assms by (simp add: find_first)

lemma has_images_truthy: "has_images v \<Longrightarrow> truthy_dict v \<and> images v \<noteq> None"
  by (auto simp: has_images_def truthy_dict_def split: option.splits)

lemma resolve_output_node_fallback:
  assumes "case map_of outs OUTPUT_NODE_ID of None \<Rightarrow> True | Some d \<Rightarrow> \<not> truthy_dict d"
    and "find has_images (map snd outs) = Some v"
  shows "resolve_output_node outs = Some v"
  using assms by (auto simp: resolve_output_node_def Let_def split: option.splits)

lemma resolve_preview_node_fallback:
  assumes "case map_of outs ''15'' of None \<Rightarrow> True | Some d \<Rightarrow> images d = None"
    and "find has_images (map snd outs) = Some v" "has_images v"
  shows "resolve_preview_node outs = Some v"
  using assms has_images_truthy [of v]
  by (auto simp: resolve_preview_node_def Let_def truthy_dict_def split: option.splits)

lemma find_Some_holds: "find P xs = Some x \<Longrightarrow> P x \<and> x \<in> set xs"
  by (induction xs) (auto split: if_splits)

lemma find_None_none: "find P xs = None \<longleftrightarrow> (\<forall>x \<in> set xs. \<not> P x)"
  by (induction xs) auto

lemma node_ready_resolve:
  "node_ready (resolve_output_node outs) \<longleftrightarrow>
     (case map_of outs OUTPUT_NODE_ID of
        None \<Rightarrow> \<exists>v \<in> set (map snd outs). has_images v
      | Some d \<Rightarrow> if truthy_dict d then has_images d else \<exists>v \<in> set (map snd outs). has_images v)"
proof (cases "find has_images (map snd outs)")
  case None
  then have no: "\<forall>v \<in> set (map snd outs). \<not> has_images v" by (simp add: find_None_none)
  with None show ?thesis
    by (auto simp: node_ready_def resolve_output_node_def Let_def split: option.splits)
next
  case (Some v)
  then have v: "has_images v" "v \<in> set (map snd outs)" using find_Some_holds by fastforce+
  with Some has_images_truthy [of v] show ?thesis
    by (auto simp: node_ready_def resolve_output_node_def Let_def split: option.splits)
qed

lemma poll_history_loop_ready:
  "fst (poll_history_loop eng pid deadline s) = Inr hist \<Longrightarrow> history_ready pid hist"
proof (induction eng pid deadline s rule: poll_history_loop.induct)
  case (1 eng prompt_id deadline s)
  from "1.prems" have lt: "clock s < deadline"
    by (subst (asm) poll_history_loop.simps) (auto split: if_splits)
  show ?case
  proof (cases "snd (history_reply eng (trace s) prompt_id)")
    case RequestFailed
    with "1.prems" lt show ?thesis
      by (subst (asm) poll_history_loop.simps) (simp add: Let_def)
  next
    case (Response r)
    show ?thesis
    proof (cases "status_code r = 200 \<and> history_ready prompt_id (json_body r)")
      case True
      with "1.prems" lt Response show ?thesis
        by (subst (asm) poll_history_loop.simps) (simp add: Let_def)
    next
      case False
      with "1.prems" lt Response have
        "fst (poll_history_loop eng prompt_id deadline
            (sleep POLL_INTERVAL_S (emit (History prompt_id)
               (advance (fst (history_reply eng (trace s) prompt_id)) s)))) = Inr hist"
        by (subst (asm) poll_history_loop.simps) (auto simp add: Let_def)
      with "1.IH" [OF lt refl Response False] show ?thesis by simp
    qed
  qed
qed

lemma completion_loop_completed:
  "fst (completion_loop eng pid start n s) = Completed hist \<Longrightarrow> map_of hist pid \<noteq> None"
proof (induction n arbitrary: s)
  case 0
  then show ?case by simp
next
  case (Suc n)
  show ?case
  proof (cases "history_if_present (snd (history_reply eng (trace s) pid)) pid")
    case None
    with Suc.prems show ?thesis
      by (auto split: if_splits dest: Suc.IH)
  next
    case (Some h)
    with Suc.prems have "h = hist" by simp
    with Some show ?thesis
      by (auto simp: history_if_present_def split: poll_outcome.splits if_splits)
  qed
qed

lemma lower_append: "lower (a @ b) = lower a @ lower b"
  by (simp add: lower_def)

lemma endswith_append: "endswith (a @ suf) suf"
  by (simp add: endswith_def)

lemma is_image_name_jpg: "is_image_name (b @ ''.jpg'')"
proof -
  have "lower (b @ ''.jpg'') = lower b @ ''.jpg''"
    by (simp add: lower_def lower_char_def)
  then show ?thesis
    unfolding is_image_name_def Let_def using endswith_append [of "lower b" "''.jpg''"] by simp
qed

lemma is_image_name_png: "is_image_name (b @ ''.png'')"
proof -
  have "lower (b @ ''.png'') = lower b @ ''.png''"
    by (simp add: lower_def lower_char_def)
  then show ?thesis
    unfolding is_image_name_def Let_def using endswith_append [of "lower b" "''.png''"] by simp
qed

lemma find_mask_filter:
  "find_mask (filter is_image_name mask_names) image_file = find_mask mask_names image_file"
  by (simp add: find_mask_def Let_def is_image_name_jpg is_image_name_png)

lemma match_pairs_result:
  "fst (match_pairs mask_files imgs acc logged)
     = acc @ concat (map (\<lambda>f. case find_mask mask_files f of None \<Rightarrow> [] | Some m \<Rightarrow> [(f, m)]) imgs)
   \<and> skipped_inputs (snd (match_pairs mask_files imgs acc logged))
     = skipped_inputs logged @ filter (\<lambda>f. find_mask mask_files f = None) imgs"
  by (induction imgs arbitrary: acc logged) (auto simp: skipped_inputs_def split: option.splits)


lemma resolve_preview_node_no_images:
  assumes "\<forall>v \<in> set (map snd outs). \<not> has_images v"
  shows "resolve_preview_node outs = None
         \<or> (\<exists>d. resolve_preview_node outs = Some d \<and> images d = Some [])"
proof -
  from assms have f: "find has_images (map snd outs) = None" by (simp add: find_None_none)
  show ?thesis
  proof (cases "map_of outs ''15''")
    case None
    with f show ?thesis by (simp add: resolve_preview_node_def Let_def truthy_dict_def)
  next
    case (Some d)
    then have "d \<in> set (map snd outs)" by (force dest: map_of_SomeD)
    with assms have "\<not> has_images d" by blast
    with f Some show ?thesis
      by (auto simp: resolve_preview_node_def Let_def truthy_dict_def has_images_def
          split: option.splits)
  qed
qed

lemma download_without_images:
  assumes w: "wait_for_completion eng pid s = (Completed hist, s1)"
    and e: "map_of hist pid = Some entry"
    and n: "\<forall>v \<in> set (map snd (outputs_or_empty entry)). \<not> has_images v"
  shows "download_processed_image eng pid out s = (False, s1)"
  using resolve_preview_node_no_images [OF n] w e
  by (auto simp: download_processed_image_def)

lemma completion_loop_first:
  "history_if_present (snd (history_reply eng (trace s) pid)) pid = Some h \<Longrightarrow> 0 < n \<Longrightarrow>
   completion_loop eng pid start n s
     = (Completed h, emit (History pid) (advance (fst (history_reply eng (trace s) pid)) s))"
  by (cases n) simp_all

lemma wait_for_completion_first:
  "history_if_present (snd (history_reply eng (trace s) pid)) pid = Some h \<Longrightarrow>
   wait_for_completion eng pid s
     = (Completed h, emit (History pid) (advance (fst (history_reply eng (trace s) pid)) s))"
  unfolding wait_for_completion_def
  by (rule completion_loop_first) (simp_all add: POLLING_TIMEOUT_def POLLING_INTERVAL_def)

lemma poll_history_first:
  "snd (history_reply eng (trace s) pid) = Response r \<Longrightarrow> status_code r = 200 \<Longrightarrow>
   history_ready pid (json_body r) \<Longrightarrow>
   poll_history eng pid s
     = (Inr (json_body r), emit (History pid) (advance (fst (history_reply eng (trace s) pid)) s))"
  unfolding poll_history_def
  by (subst poll_history_loop.simps) (simp add: POLL_TIMEOUT_S_def Let_def)

lemma example_wait_no_outputs:
  "wait_for_completion (example_engine (ok_response None)) ''job1'' (example_state example_graph)
     = (Completed [(''job1'', \<lparr>outputs = None\<rparr>)],
        emit (History ''job1'') (advance 200 (example_state example_graph)))"
  by (subst wait_for_completion_first [where h = "[(''job1'', \<lparr>outputs = None\<rparr>)]"])
     (simp_all add: example_engine_def ok_response_def history_if_present_def)



lemma has_images_cons: "has_images v \<Longrightarrow> \<exists>info rest. images v = Some (info # rest)"
  by (cases "images v") (auto simp: has_images_def neq_Nil_conv)

lemma fetch_first_image_resolved:
  assumes "map_of hist pid = Some entry" "outputs entry = Some outs"
    "resolve_output_node outs = Some v" "images v = Some (info # rest)"
  shows "fetch_first_image eng hist pid s
     = (case view_reply eng (trace s) (view_params_of info) of
          None \<Rightarrow> Inl RequestError
        | Some content \<Rightarrow> Inr content,
        emit (View (view_params_of info)) s)"
  using assms by (simp add: fetch_first_image_def split: option.splits)

lemma download_resolved:
  assumes "fst (wait_for_completion eng pid s) = Completed hist" "map_of hist pid = Some entry"
    "resolve_preview_node (outputs_or_empty entry) = Some v" "images v = Some imgs"
  shows "download_processed_image eng pid out s
     = (case download_variants eng out 0 (take 4 imgs) 0 (snd (wait_for_completion eng pid s)) of
          (downloaded_count, s2) \<Rightarrow> (0 < downloaded_count, s2))"
  using assms by (cases "wait_for_completion eng pid s") (simp add: download_processed_image_def)

lemma polled_simps [simp]:
  "trace (polled eng pid s) = trace s @ [History pid]"
  "clock (polled eng pid s) = clock s + fst (history_reply eng (trace s) pid)"
  "cells (polled eng pid s) = cells s" "fresh (polled eng pid s) = fresh s"
  by (simp_all add: polled_def emit_def advance_def)

lemma poll_round_simps [simp]:
  "trace (poll_round eng pid i s) = trace s @ [History pid, Sleep i]"
  "clock (poll_round eng pid i s) = clock s + fst (history_reply eng (trace s) pid) + 1000 * i"
  "cells (poll_round eng pid i s) = cells s" "fresh (poll_round eng pid i s) = fresh s"
  by (simp_all add: poll_round_def sleep_def emit_def advance_def)

lemma funpow_Suc_left: "(f ^^ Suc n) x = (f ^^ n) (f x)"
  by (simp add: funpow_swap1)


lemma clock_poll_rounds_mono: "clock s + n * (1000 * i) \<le> clock ((poll_round eng pid i ^^ n) s)"
proof (induction n arbitrary: s)
  case 0
  then show ?case by simp
next
  case (Suc n)
  have "clock (poll_round eng pid i s) + n * (1000 * i)
      \<le> clock ((poll_round eng pid i ^^ n) (poll_round eng pid i s))" by (rule Suc.IH)
  then show ?case unfolding funpow_Suc_left by simp
qed

lemma job_complete_ready:
  "job_complete pid r \<longleftrightarrow> status_code r = 200 \<and> history_ready pid (json_body r)"
proof (cases "map_of (json_body r) pid")
  case None
  then show ?thesis by (simp add: job_complete_def history_ready_def)
next
  case (Some entry)
  then have "json_body r \<noteq> []" by auto
  with Some show ?thesis
    by (simp add: job_complete_def history_ready_def node_ready_resolve)
qed

lemma poll_history_loop_step:
  "poll_history_loop eng pid deadline s =
     (if clock s < deadline then
        (case reply_at eng pid s of
           RequestFailed \<Rightarrow> (Inl RequestError, polled eng pid s)
         | Response r \<Rightarrow>
             if job_complete pid r then (Inr (json_body r), polled eng pid s)
             else poll_history_loop eng pid deadline (poll_round eng pid POLL_INTERVAL_S s))
      else (Inl (HTTPException 504), s))"
  by (subst poll_history_loop.simps)
     (simp add: Let_def reply_at_def polled_def poll_round_def job_complete_ready
        split: poll_outcome.splits)

lemma completion_loop_step:
  "completion_loop eng pid start (Suc m) s =
     (case history_if_present (reply_at eng pid s) pid of
        Some hist \<Rightarrow> (Completed hist, polled eng pid s)
      | None \<Rightarrow>
          if 1000 * POLLING_TIMEOUT \<le> clock (polled eng pid s) - start
          then (TimedOut, polled eng pid s)
          else completion_loop eng pid start m (poll_round eng pid POLLING_INTERVAL s))"
  by (simp add: reply_at_def polled_def poll_round_def emit_def advance_def split: option.splits)

lemma poll_history_loop_returns_only_if:
  "poll_history_loop eng pid deadline s = (Inr hist, s') \<Longrightarrow>
   \<exists>n r. (\<forall>k\<le>n. clock ((poll_round eng pid POLL_INTERVAL_S ^^ k) s) < deadline)
       \<and> (\<forall>k<n. \<exists>r'. reply_at eng pid ((poll_round eng pid POLL_INTERVAL_S ^^ k) s) = Response r'
                      \<and> \<not> job_complete pid r')
       \<and> reply_at eng pid ((poll_round eng pid POLL_INTERVAL_S ^^ n) s) = Response r
       \<and> job_complete pid r \<and> hist = json_body r
       \<and> s' = polled eng pid ((poll_round eng pid POLL_INTERVAL_S ^^ n) s)"
proof (induction "deadline - clock s" arbitrary: s rule: less_induct)
  case less
  let ?R = "poll_round eng pid POLL_INTERVAL_S"
  from less.prems have lt: "clock s < deadline"
    by (subst (asm) poll_history_loop_step) (auto split: if_splits)
  from less.prems lt obtain r0 where r0: "reply_at eng pid s = Response r0"
    by (subst (asm) poll_history_loop_step) (auto split: poll_outcome.splits)
  show ?case
  proof (cases "job_complete pid r0")
    case True
    with less.prems lt r0 have "hist = json_body r0" "s' = polled eng pid s"
      by (subst (asm) poll_history_loop_step, simp)+
    with True r0 lt show ?thesis
      by (intro exI [of _ 0] exI [of _ r0]) simp
  next
    case False
    with less.prems lt r0 have rec: "poll_history_loop eng pid deadline (?R s) = (Inr hist, s')"
      by (subst (asm) poll_history_loop_step) simp
    have "deadline - clock (?R s) < deadline - clock s"
      using lt by (simp add: POLL_INTERVAL_S_def)
    from less.hyps [OF this rec] obtain n r where n:
      "\<forall>k\<le>n. clock ((?R ^^ k) (?R s)) < deadline"
      "\<forall>k<n. \<exists>r'. reply_at eng pid ((?R ^^ k) (?R s)) = Response r' \<and> \<not> job_complete pid r'"
      "reply_at eng pid ((?R ^^ n) (?R s)) = Response r"
      "job_complete pid r" "hist = json_body r" "s' = polled eng pid ((?R ^^ n) (?R s))"
      by blast
    have a: "\<forall>k\<le>Suc n. clock ((?R ^^ k) s) < deadline"
    proof (intro allI impI)
      fix k assume "k \<le> Suc n"
      then show "clock ((?R ^^ k) s) < deadline"
        using lt n(1) by (cases k) (simp_all add: funpow_swap1)
    qed
    have b: "\<forall>k<Suc n. \<exists>r'. reply_at eng pid ((?R ^^ k) s) = Response r' \<and> \<not> job_complete pid r'"
    proof (intro allI impI)
      fix k assume "k < Suc n"
      then show "\<exists>r'. reply_at eng pid ((?R ^^ k) s) = Response r' \<and> \<not> job_complete pid r'"
        using r0 False n(2) by (cases k) (simp_all add: funpow_swap1)
    qed
    from a b n(3-6) show ?thesis
      by (intro exI [of _ "Suc n"] exI [of _ r]) (simp add: funpow_swap1)
  qed
qed

lemma poll_history_loop_returns_if:
  "(\<forall>k\<le>n. clock ((poll_round eng pid POLL_INTERVAL_S ^^ k) s) < deadline) \<Longrightarrow>
   (\<forall>k<n. \<exists>r'. reply_at eng pid ((poll_round eng pid POLL_INTERVAL_S ^^ k) s) = Response r'
                      \<and> \<not> job_complete pid r') \<Longrightarrow>
   reply_at eng pid ((poll_round eng pid POLL_INTERVAL_S ^^ n) s) = Response r \<Longrightarrow>
   job_complete pid r \<Longrightarrow>
   poll_history_loop eng pid deadline s
     = (Inr (json_body r), polled eng pid ((poll_round eng pid POLL_INTERVAL_S ^^ n) s))"
proof (induction n arbitrary: s)
  case 0
  then show ?case by (subst poll_history_loop_step) simp
next
  case (Suc n)
  let ?R = "poll_round eng pid POLL_INTERVAL_S"
  from Suc.prems(1) [rule_format, of 0] have lt: "clock s < deadline" by simp
  from Suc.prems(2) [rule_format, of 0] obtain r0 where
    r0: "reply_at eng pid s = Response r0" "\<not> job_complete pid r0" by auto
  have a: "\<forall>k\<le>n. clock ((?R ^^ k) (?R s)) < deadline"
  proof (intro allI impI)
    fix k assume "k \<le> n"
    with Suc.prems(1) [rule_format, of "Suc k"] show "clock ((?R ^^ k) (?R s)) < deadline"
      by (simp add: funpow_swap1)
  qed
  have b: "\<forall>k<n. \<exists>r'. reply_at eng pid ((?R ^^ k) (?R s)) = Response r' \<and> \<not> job_complete pid r'"
  proof (intro allI impI)
    fix k assume "k < n"
    with Suc.prems(2) [rule_format, of "Suc k"]
    show "\<exists>r'. reply_at eng pid ((?R ^^ k) (?R s)) = Response r' \<and> \<not> job_complete pid r'"
      by (simp add: funpow_swap1)
  qed
  have c: "reply_at eng pid ((?R ^^ n) (?R s)) = Response r"
    using Suc.prems(3) by (simp add: funpow_swap1)
  have "poll_history_loop eng pid deadline s = poll_history_loop eng pid deadline (?R s)"
    using lt r0 by (subst poll_history_loop_step) simp
  also have "\<dots> = (Inr (json_body r), polled eng pid ((?R ^^ n) (?R s)))"
    using a b c Suc.prems(4) by (rule Suc.IH)
  finally show ?case by (simp add: funpow_swap1)
qed


lemma completion_loop_completed_iff:
  "completion_loop eng pid start m s = (Completed hist, s') \<longleftrightarrow>
   (\<exists>n<m. (\<forall>k<n. history_if_present (reply_at eng pid ((poll_round eng pid POLLING_INTERVAL ^^ k) s)) pid = None
                  \<and> clock (polled eng pid ((poll_round eng pid POLLING_INTERVAL ^^ k) s)) - start
                       < 1000 * POLLING_TIMEOUT)
        \<and> history_if_present (reply_at eng pid ((poll_round eng pid POLLING_INTERVAL ^^ n) s)) pid
             = Some hist
        \<and> s' = polled eng pid ((poll_round eng pid POLLING_INTERVAL ^^ n) s))"
  (is "?L m s \<longleftrightarrow> ?Rh m s")
proof (induction m arbitrary: s)
  case 0
  then show ?case by simp
next
  case (Suc m)
  let ?R = "poll_round eng pid POLLING_INTERVAL"
  show ?case
  proof (cases "history_if_present (reply_at eng pid s) pid")
    case (Some h)
    have l: "?L (Suc m) s \<longleftrightarrow> (h = hist \<and> s' = polled eng pid s)"
      by (subst completion_loop_step) (auto simp: Some)
    have r: "?Rh (Suc m) s \<longleftrightarrow> (h = hist \<and> s' = polled eng pid s)"
    proof
      assume "?Rh (Suc m) s"
      then obtain n where n: "n < Suc m"
        "\<forall>k<n. history_if_present (reply_at eng pid ((?R ^^ k) s)) pid = None
               \<and> clock (polled eng pid ((?R ^^ k) s)) - start < 1000 * POLLING_TIMEOUT"
        "history_if_present (reply_at eng pid ((?R ^^ n) s)) pid = Some hist"
        "s' = polled eng pid ((?R ^^ n) s)" by blast
      have "n = 0"
      proof (rule ccontr)
        assume "n \<noteq> 0"
        then have "0 < n" by simp
        with n(2) have "history_if_present (reply_at eng pid ((?R ^^ 0) s)) pid = None" by blast
        with Some show False by simp
      qed
      with n Some show "h = hist \<and> s' = polled eng pid s" by simp
    next
      assume "h = hist \<and> s' = polled eng pid s"
      with Some show "?Rh (Suc m) s" by (intro exI [of _ 0]) simp
    qed
    from l r show ?thesis by simp
  next
    case None
    show ?thesis
    proof (cases "1000 * POLLING_TIMEOUT \<le> clock (polled eng pid s) - start")
      case True
      have l: "\<not> ?L (Suc m) s" using True by (subst completion_loop_step) (simp add: None)
      have r: "\<not> ?Rh (Suc m) s"
      proof
        assume "?Rh (Suc m) s"
        then obtain n where n: "n < Suc m"
          "\<forall>k<n. history_if_present (reply_at eng pid ((?R ^^ k) s)) pid = None
               \<and> clock (polled eng pid ((?R ^^ k) s)) - start < 1000 * POLLING_TIMEOUT"
          "history_if_present (reply_at eng pid ((?R ^^ n) s)) pid = Some hist" by blast
        show False
        proof (cases n)
          case 0
          with n(3) None show False by simp
        next
          case (Suc j)
          with n(2) have "clock (polled eng pid ((?R ^^ 0) s)) - start < 1000 * POLLING_TIMEOUT"
            by blast
          with True show False by simp
        qed
      qed
      from l r show ?thesis by simp
    next
      case False
      have l: "?L (Suc m) s \<longleftrightarrow> ?L m (?R s)"
        using False by (subst completion_loop_step) (simp add: None)
      have r: "?Rh (Suc m) s \<longleftrightarrow> ?Rh m (?R s)"
      proof
        assume "?Rh (Suc m) s"
        then obtain n where n: "n < Suc m"
          "\<forall>k<n. history_if_present (reply_at eng pid ((?R ^^ k) s)) pid = None
               \<and> clock (polled eng pid ((?R ^^ k) s)) - start < 1000 * POLLING_TIMEOUT"
          "history_if_present (reply_at eng pid ((?R ^^ n) s)) pid = Some hist"
          "s' = polled eng pid ((?R ^^ n) s)" by blast
        from n(3) None obtain j where j: "n = Suc j" by (cases n) simp_all
        have "\<forall>k<j. history_if_present (reply_at eng pid ((?R ^^ k) (?R s))) pid = None
               \<and> clock (polled eng pid ((?R ^^ k) (?R s))) - start < 1000 * POLLING_TIMEOUT"
        proof (intro allI impI)
          fix k assume "k < j"
          with n(2) [rule_format, of "Suc k"] j
          show "history_if_present (reply_at eng pid ((?R ^^ k) (?R s))) pid = None
               \<and> clock (polled eng pid ((?R ^^ k) (?R s))) - start < 1000 * POLLING_TIMEOUT"
            by (simp add: funpow_swap1)
        qed
        with n j show "?Rh m (?R s)"
          by (intro exI [of _ j]) (simp add: funpow_swap1)
      next
        assume "?Rh m (?R s)"
        then obtain j where j: "j < m"
          "\<forall>k<j. history_if_present (reply_at eng pid ((?R ^^ k) (?R s))) pid = None
               \<and> clock (polled eng pid ((?R ^^ k) (?R s))) - start < 1000 * POLLING_TIMEOUT"
          "history_if_present (reply_at eng pid ((?R ^^ j) (?R s))) pid = Some hist"
          "s' = polled eng pid ((?R ^^ j) (?R s))" by blast
        have "\<forall>k<Suc j. history_if_present (reply_at eng pid ((?R ^^ k) s)) pid = None
               \<and> clock (polled eng pid ((?R ^^ k) s)) - start < 1000 * POLLING_TIMEOUT"
        proof (intro allI impI)
          fix k assume "k < Suc j"
          then show "history_if_present (reply_at eng pid ((?R ^^ k) s)) pid = None
               \<and> clock (polled eng pid ((?R ^^ k) s)) - start < 1000 * POLLING_TIMEOUT"
            using None False j(2) by (cases k) (simp_all add: funpow_swap1)
        qed
        with j show "?Rh (Suc m) s"
          by (intro exI [of _ "Suc j"]) (simp add: funpow_swap1)
      qed
      from l r Suc.IH [of "?R s"] show ?thesis by simp
    qed
  qed
qed


lemma deep_copy_frame:
  "a < fresh s \<Longrightarrow> cells (snd (deep_copy w s)) a = cells s a"
  by (simp add: deep_copy_def)

lemma deep_copy_simps:
  "fst (deep_copy w s) = fresh s"
  "fresh (snd (deep_copy w s)) = fresh s + 1"
  "cells (snd (deep_copy w s)) (fresh s) = cells s w"
  "trace (snd (deep_copy w s)) = trace s"
  "clock (snd (deep_copy w s)) = clock s"
  by (simp_all add: deep_copy_def)

lemma assign_node_input_frame:
  "(b \<noteq> a \<longrightarrow> cells (snd (assign_node_input a node_id key v s)) b = cells s b)
   \<and> fresh (snd (assign_node_input a node_id key v s)) = fresh s
   \<and> trace (snd (assign_node_input a node_id key v s)) = trace s
   \<and> clock (snd (assign_node_input a node_id key v s)) = clock s"
  by (auto simp: assign_node_input_def split: option.splits)

lemma apply_assignments_frame:
  "(b \<noteq> a \<longrightarrow> cells (snd (apply_assignments a asg s)) b = cells s b)
   \<and> fresh (snd (apply_assignments a asg s)) = fresh s
   \<and> trace (snd (apply_assignments a asg s)) = trace s
   \<and> clock (snd (apply_assignments a asg s)) = clock s"
proof (induction a asg s rule: apply_assignments.induct)
  case (1 a s)
  then show ?case by simp
next
  case (2 a node_id key v rest s)
  show ?case
  proof (cases "map_of (cells s a) node_id \<noteq> None")
    case False
    then have "apply_assignments a ((node_id, key, v) # rest) s = apply_assignments a rest s"
      by simp
    with "2.IH"(2) False show ?thesis by simp
  next
    case True
    obtain ok1 s1 where a1: "assign_node_input a node_id key v s = (ok1, s1)"
      by (cases "assign_node_input a node_id key v s")
    from assign_node_input_frame [of b a node_id key v s] a1
    have f1: "b \<noteq> a \<longrightarrow> cells s1 b = cells s b" "fresh s1 = fresh s" "trace s1 = trace s"
      "clock s1 = clock s" by simp_all
    show ?thesis
    proof (cases ok1)
      case False
      with True a1 have "apply_assignments a ((node_id, key, v) # rest) s = (False, s1)"
        by simp
      with f1 show ?thesis by simp
    next
      case ok: True
      with True a1 have e: "apply_assignments a ((node_id, key, v) # rest) s
          = apply_assignments a rest s1" by simp
      from a1 ok have a1': "(True, s1) = assign_node_input a node_id key v s" by simp
      from "2.IH"(1) [OF True a1' refl] f1 show ?thesis unfolding e by simp
    qed
  qed
qed

lemma update_workflow_frame:
  "(a < fresh s \<longrightarrow> cells (snd (update_workflow w i m b st p s)) a = cells s a)
   \<and> fresh (snd (update_workflow w i m b st p s)) = fresh s + 1
   \<and> trace (snd (update_workflow w i m b st p s)) = trace s
   \<and> clock (snd (update_workflow w i m b st p s)) = clock s
   \<and> (fst (update_workflow w i m b st p s) = None
        \<or> fst (update_workflow w i m b st p s) = Some (fresh s))"
proof -
  obtain ok s1 where ap: "apply_assignments (fst (deep_copy w s)) (workflow_assignments i m b st p)
      (snd (deep_copy w s)) = (ok, s1)"
    by (cases "apply_assignments (fst (deep_copy w s)) (workflow_assignments i m b st p)
      (snd (deep_copy w s))")
  then have u: "update_workflow w i m b st p s = (if ok then Some (fresh s) else None, s1)"
    by (simp add: update_workflow_def deep_copy_simps)
  from apply_assignments_frame [of a "fst (deep_copy w s)" "workflow_assignments i m b st p"
      "snd (deep_copy w s)"] ap
  show ?thesis
    unfolding u by (auto simp: deep_copy_simps deep_copy_frame)
qed

lemma assign_node_input_ok:
  "map_of (cells s a) node_id = Some nd \<Longrightarrow> inputs nd = Some ins \<Longrightarrow>
   assign_node_input a node_id key v s
     = (True, s\<lparr>cells := (cells s)(a :=
          AList.update node_id (nd\<lparr>inputs := Some (AList.update key v ins)\<rparr>) (cells s a))\<rparr>)"
  by (simp add: assign_node_input_def)

lemma assign_node_input_fails:
  "lacks_inputs (cells s a) node_id \<Longrightarrow> assign_node_input a node_id key v s = (False, s)"
  by (auto simp: assign_node_input_def lacks_inputs_def split: option.splits)

lemma map_fst_update_present:
  "map_of al k = Some x \<Longrightarrow> map fst (AList.update k y al) = map fst al"
  by (induction al) (auto split: if_splits)

lemma assign_step:
  assumes p: "map_of (cells s a) node_id \<noteq> None" and l: "\<not> lacks_inputs (cells s a) node_id"
  shows "fst (assign_node_input a node_id key v s)
    \<and> map fst (cells (snd (assign_node_input a node_id key v s)) a) = map fst (cells s a)
    \<and> node_input (cells (snd (assign_node_input a node_id key v s)) a) node_id key = Some v
    \<and> (\<forall>i. i \<noteq> node_id \<longrightarrow>
          map_of (cells (snd (assign_node_input a node_id key v s)) a) i = map_of (cells s a) i)
    \<and> (\<forall>i. lacks_inputs (cells (snd (assign_node_input a node_id key v s)) a) i
             = lacks_inputs (cells s a) i)
    \<and> (\<forall>i. (map_of (cells (snd (assign_node_input a node_id key v s)) a) i = None)
             = (map_of (cells s a) i = None))"
proof -
  from p l obtain nd ins where nd: "map_of (cells s a) node_id = Some nd" "inputs nd = Some ins"
    by (auto simp: lacks_inputs_def)
  show ?thesis
    unfolding assign_node_input_ok [OF nd]
    using nd
    by (auto simp: map_fst_update_present update_conv' node_input_def lacks_inputs_def)
qed

lemma apply_assignments_result:
  "map fst (cells (snd (apply_assignments a asg s)) a) = map fst (cells s a)
   \<and> (fst (apply_assignments a asg s)
        \<longleftrightarrow> \<not> (\<exists>t \<in> set asg. lacks_inputs (cells s a) (fst t)))
   \<and> (\<forall>i. i \<notin> fst ` set asg \<longrightarrow>
         map_of (cells (snd (apply_assignments a asg s)) a) i = map_of (cells s a) i)
   \<and> (fst (apply_assignments a asg s) \<and> distinct (map fst asg) \<longrightarrow>
        (\<forall>t \<in> set asg. map_of (cells s a) (fst t) \<noteq> None \<longrightarrow>
           node_input (cells (snd (apply_assignments a asg s)) a) (fst t) (fst (snd t))
             = Some (snd (snd t))))"
proof (induction a asg s rule: apply_assignments.induct)
  case (1 a s)
  then show ?case by simp
next
  case (2 a node_id key v rest s)
  show ?case
  proof (cases "map_of (cells s a) node_id \<noteq> None")
    case False
    then have e: "apply_assignments a ((node_id, key, v) # rest) s = apply_assignments a rest s"
      by simp
    from False have nl: "\<not> lacks_inputs (cells s a) node_id" by (simp add: lacks_inputs_def)
    from "2.IH"(2) [OF False] False nl show ?thesis
      unfolding e by auto
  next
    case True
    show ?thesis
    proof (cases "lacks_inputs (cells s a) node_id")
      case l: True
      with True have "apply_assignments a ((node_id, key, v) # rest) s = (False, s)"
        by (simp add: assign_node_input_fails)
      with l show ?thesis by simp
    next
      case l: False
      define s1 where "s1 = snd (assign_node_input a node_id key v s)"
      note st = assign_step [OF True l, of key v, folded s1_def]
      from st have a1: "(True, s1) = assign_node_input a node_id key v s"
        by (simp add: s1_def prod_eq_iff)
      then have e: "apply_assignments a ((node_id, key, v) # rest) s = apply_assignments a rest s1"
        using True by (simp add: a1 [symmetric])
      note ih = "2.IH"(1) [OF True a1 refl]
      have k: "map fst (cells (snd (apply_assignments a rest s1)) a) = map fst (cells s a)"
        using ih st by simp
      have f: "fst (apply_assignments a rest s1)
          \<longleftrightarrow> \<not> (\<exists>t \<in> set ((node_id, key, v) # rest). lacks_inputs (cells s a) (fst t))"
        using ih st l by simp
      have u: "\<forall>i. i \<notin> fst ` set ((node_id, key, v) # rest) \<longrightarrow>
         map_of (cells (snd (apply_assignments a rest s1)) a) i = map_of (cells s a) i"
        using ih st by simp
      have n: "fst (apply_assignments a rest s1) \<and> distinct (map fst ((node_id, key, v) # rest))
        \<longrightarrow> (\<forall>t \<in> set ((node_id, key, v) # rest). map_of (cells s a) (fst t) \<noteq> None \<longrightarrow>
           node_input (cells (snd (apply_assignments a rest s1)) a) (fst t) (fst (snd t))
             = Some (snd (snd t)))"
      proof (intro impI ballI)
        fix t
        assume h: "fst (apply_assignments a rest s1) \<and> distinct (map fst ((node_id, key, v) # rest))"
          and t: "t \<in> set ((node_id, key, v) # rest)"
          and pr: "map_of (cells s a) (fst t) \<noteq> None"
        show "node_input (cells (snd (apply_assignments a rest s1)) a) (fst t) (fst (snd t))
             = Some (snd (snd t))"
        proof (cases "t = (node_id, key, v)")
          case True
          from h have "node_id \<notin> fst ` set rest" by simp
          with ih have "map_of (cells (snd (apply_assignments a rest s1)) a) node_id
              = map_of (cells s1 a) node_id" by simp
          then have "node_input (cells (snd (apply_assignments a rest s1)) a) node_id key
              = node_input (cells s1 a) node_id key" by (simp add: node_input_def)
          with st True show ?thesis by simp
        next
          case False
          with t have tr: "t \<in> set rest" by simp
          with h have "fst t \<noteq> node_id" by force
          with pr st have "map_of (cells s1 a) (fst t) \<noteq> None" by simp
          with ih h tr show ?thesis by simp
        qed
      qed
      from k f u n show ?thesis unfolding e by blast
    qed
  qed
qed

lemma apply_assignments_keys:
  "map fst (cells (snd (apply_assignments a asg s)) a) = map fst (cells s a)"
  using apply_assignments_result [of a asg s] by blast

lemma apply_assignments_skip_absent:
  "apply_assignments a asg s
     = apply_assignments a (filter (\<lambda>t. map_of (cells s a) (fst t) \<noteq> None) asg) s"
proof (induction a asg s rule: apply_assignments.induct)
  case (1 a s)
  then show ?case by simp
next
  case (2 a node_id key v rest s)
  show ?case
  proof (cases "map_of (cells s a) node_id \<noteq> None")
    case False
    with "2.IH"(2) show ?thesis by simp
  next
    case True
    obtain ok1 s1 where a1: "assign_node_input a node_id key v s = (ok1, s1)"
      by (cases "assign_node_input a node_id key v s")
    show ?thesis
    proof (cases ok1)
      case False
      with True a1 show ?thesis by simp
    next
      case ok: True
      from a1 ok have a1': "(True, s1) = assign_node_input a node_id key v s" by simp
      have l: "\<not> lacks_inputs (cells s a) node_id"
        using assign_node_input_fails [of s a node_id key v] a1 ok by auto
      from assign_step [OF True l, of key v] a1
      have k: "\<forall>i. (map_of (cells s1 a) i = None) = (map_of (cells s a) i = None)" by simp
      from "2.IH"(1) [OF True a1' refl] k True a1 ok show ?thesis by simp
    qed
  qed
qed

lemma workflow_assignments_ids:
  "map fst (workflow_assignments i m b st p) = [''454'', ''439'', ''256'', ''110'', ''448'']"
  by (simp add: workflow_assignments_def)

lemma emit_heap [simp]: "cells (emit e s) = cells s" "fresh (emit e s) = fresh s"
  "clock (emit e s) = clock s" "trace (emit e s) = trace s @ [e]"
  by (simp_all add: emit_def)

lemma advance_heap [simp]: "cells (advance d s) = cells s" "fresh (advance d s) = fresh s"
  "clock (advance d s) = clock s + d" "trace (advance d s) = trace s"
  by (simp_all add: advance_def)

lemma sleep_heap [simp]: "cells (sleep d s) = cells s" "fresh (sleep d s) = fresh s"
  "clock (sleep d s) = clock s + 1000 * d" "trace (sleep d s) = trace s @ [Sleep d]"
  by (simp_all add: sleep_def)

lemma upload_image_with_retry_heap:
  "cells (snd (upload_image_with_retry eng p s)) = cells s
   \<and> fresh (snd (upload_image_with_retry eng p s)) = fresh s"
  by (simp add: upload_image_with_retry_def)

lemma submit_workflow_heap:
  "cells (snd (submit_workflow_to_comfyui eng w s)) = cells s
   \<and> fresh (snd (submit_workflow_to_comfyui eng w s)) = fresh s"
  by (simp add: submit_workflow_to_comfyui_def split: submit_outcome.splits)

lemma completion_loop_heap:
  "cells (snd (completion_loop eng pid start n s)) = cells s
   \<and> fresh (snd (completion_loop eng pid start n s)) = fresh s"
  by (induction n arbitrary: s) (auto split: option.splits)

lemma download_variants_heap:
  "cells (snd (download_variants eng out idx imgs cnt s)) = cells s
   \<and> fresh (snd (download_variants eng out idx imgs cnt s)) = fresh s"
  by (induction imgs arbitrary: idx cnt s) (auto split: option.splits)

lemma download_processed_image_heap:
  "cells (snd (download_processed_image eng pid out s)) = cells s
   \<and> fresh (snd (download_processed_image eng pid out s)) = fresh s"
proof -
  obtain r s1 where w: "wait_for_completion eng pid s = (r, s1)"
    by (cases "wait_for_completion eng pid s")
  with completion_loop_heap [of eng pid "clock s" "POLLING_TIMEOUT div POLLING_INTERVAL" s]
  have h: "cells s1 = cells s" "fresh s1 = fresh s"
    by (simp_all add: wait_for_completion_def)
  show ?thesis
    unfolding download_processed_image_def w
    using h
    by (auto simp: case_prod_beta download_variants_heap split: poll_result.splits option.splits)
qed

lemma upload_to_comfy_heap:
  "cells (snd (upload_to_comfy eng n s)) = cells s
   \<and> fresh (snd (upload_to_comfy eng n s)) = fresh s"
  by (simp add: upload_to_comfy_def split: option.splits)

lemma queue_prompt_heap:
  "cells (snd (queue_prompt eng g s)) = cells s
   \<and> fresh (snd (queue_prompt eng g s)) = fresh s"
  by (simp add: queue_prompt_def split: submit_outcome.splits option.splits)

lemma poll_history_loop_heap:
  "cells (snd (poll_history_loop eng pid deadline s)) = cells s
   \<and> fresh (snd (poll_history_loop eng pid deadline s)) = fresh s"
proof (induction "deadline - clock s" arbitrary: s rule: less_induct)
  case less
  show ?case
  proof (cases "clock s < deadline")
    case False
    then show ?thesis by (subst (1 2) poll_history_loop_step) simp
  next
    case True
    show ?thesis
    proof (cases "reply_at eng pid s")
      case RequestFailed
      with True show ?thesis by (subst (1 2) poll_history_loop_step) simp
    next
      case (Response r)
      show ?thesis
      proof (cases "job_complete pid r")
        case c: True
        with True Response show ?thesis by (subst (1 2) poll_history_loop_step) simp
      next
        case c: False
        have "deadline - clock (poll_round eng pid POLL_INTERVAL_S s) < deadline - clock s"
          using True by (simp add: POLL_INTERVAL_S_def)
        from less [OF this] True Response c show ?thesis
          by (subst (1 2) poll_history_loop_step) simp
      qed
    qed
  qed
qed

lemma poll_history_heap:
  "cells (snd (poll_history eng pid s)) = cells s
   \<and> fresh (snd (poll_history eng pid s)) = fresh s"
  unfolding poll_history_def by (rule poll_history_loop_heap)

lemma fetch_first_image_heap:
  "cells (snd (fetch_first_image eng hist pid s)) = cells s
   \<and> fresh (snd (fetch_first_image eng hist pid s)) = fresh s"
  by (simp add: fetch_first_image_def split: option.splits list.splits)

lemma set_input_image_frame:
  "(b \<noteq> g \<longrightarrow> cells (snd (set_input_image g cn s)) b = cells s b)
   \<and> fresh (snd (set_input_image g cn s)) = fresh s"
  by (simp add: set_input_image_def split: option.splits)

lemma set_input_image_in_place:
  "map_of (cells s g) INPUT_NODE_ID \<noteq> None \<Longrightarrow>
   fst (set_input_image g cn s) = Inr ()
   \<and> node_input (cells (snd (set_input_image g cn s)) g) INPUT_NODE_ID ''image'' = Some (JStr cn)"
  by (auto simp: set_input_image_def node_input_def update_conv' split: option.splits)

lemma process_single_image_cells:
  "cells (snd (process_single_image eng n g s))
     = (case upload_to_comfy eng n s of
          (Inl e, s1) \<Rightarrow> cells s
        | (Inr cn, s1) \<Rightarrow> cells (snd (set_input_image g cn s1)))
   \<and> fresh (snd (process_single_image eng n g s)) = fresh s"
proof (cases "upload_to_comfy eng n s")
  case (Pair r1 s1)
  note u = this
  from upload_to_comfy_heap [of eng n s] u have h1: "cells s1 = cells s" "fresh s1 = fresh s"
    by simp_all
  show ?thesis
  proof (cases r1)
    case (Inl e)
    with u h1 show ?thesis by (simp add: process_single_image_def)
  next
    case (Inr cn)
    note r1 = this
    show ?thesis
    proof (cases "set_input_image g cn s1")
      case (Pair r2 s2)
      note m = this
      from set_input_image_frame [of _ g cn s1] m h1 have h2: "fresh s2 = fresh s" by simp
      show ?thesis
      proof (cases r2)
        case (Inl e)
        with u r1 m h1 h2 show ?thesis by (simp add: process_single_image_def)
      next
        case (Inr x)
        note r2 = this
        show ?thesis
        proof (cases "queue_prompt eng g s2")
          case (Pair r3 s3)
          note q = this
          from queue_prompt_heap [of eng g s2] q have h3: "cells s3 = cells s2" "fresh s3 = fresh s2"
            by simp_all
          show ?thesis
          proof (cases r3)
            case (Inl e)
            with u r1 m r2 q h1 h2 h3 show ?thesis by (simp add: process_single_image_def)
          next
            case (Inr pid)
            note r3 = this
            show ?thesis
            proof (cases "poll_history eng pid s3")
              case (Pair r4 s4)
              note p = this
              from poll_history_heap [of eng pid s3] p
              have h4: "cells s4 = cells s3" "fresh s4 = fresh s3" by simp_all
              show ?thesis
              proof (cases r4)
                case (Inl e)
                with u r1 m r2 q r3 p h1 h2 h3 h4 show ?thesis
                  by (simp add: process_single_image_def)
              next
                case (Inr hist)
                note r4 = this
                from fetch_first_image_heap [of eng hist pid s4]
                have h5: "cells (snd (fetch_first_image eng hist pid s4)) = cells s4"
                  "fresh (snd (fetch_first_image eng hist pid s4)) = fresh s4" by simp_all
                show ?thesis
                proof (cases "fetch_first_image eng hist pid s4")
                  case (Pair r5 s5)
                  with h5 have h5': "cells s5 = cells s4" "fresh s5 = fresh s4" by simp_all
                  from Pair u r1 m r2 q r3 p r4 h1 h2 h3 h4 h5' show ?thesis
                    by (cases r5) (simp_all add: process_single_image_def)
                qed
              qed
            qed
          qed
        qed
      qed
    qed
  qed
qed

lemma process_single_image_frame:
  "(b \<noteq> g \<longrightarrow> cells (snd (process_single_image eng n g s)) b = cells s b)
   \<and> fresh (snd (process_single_image eng n g s)) = fresh s"
proof (cases "upload_to_comfy eng n s")
  case (Pair r1 s1)
  from upload_to_comfy_heap [of eng n s] Pair have h1: "cells s1 = cells s" by simp
  from process_single_image_cells [of eng n g s] Pair h1
       set_input_image_frame [of b g _ s1]
  show ?thesis by (cases r1) simp_all
qed

lemma process_zip_images_frame:
  "fresh s \<le> fresh (snd (process_zip_images eng g names s))
   \<and> (\<forall>a. a < fresh s \<longrightarrow> cells (snd (process_zip_images eng g names s)) a = cells s a)"
proof (induction names arbitrary: s)
  case Nil
  then show ?case by simp
next
  case (Cons fname rest)
  let ?c = "fst (deep_copy g s)" and ?s0 = "snd (deep_copy g s)"
  obtain r s1 where p: "process_single_image eng fname ?c ?s0 = (r, s1)"
    by (cases "process_single_image eng fname ?c ?s0")
  from process_single_image_frame [of _ ?c eng fname ?s0] p
  have f1: "fresh s1 = fresh s + 1" "\<And>b. b \<noteq> fresh s \<Longrightarrow> cells s1 b = cells ?s0 b"
    by (simp_all add: deep_copy_simps)
  have c1: "\<And>a. a < fresh s \<Longrightarrow> cells s1 a = cells s a"
    using f1(2) by (simp add: deep_copy_frame)
  have e: "snd (process_zip_images eng g (fname # rest) s) = snd (process_zip_images eng g rest s1)"
    using p by (cases r) (simp_all add: case_prod_beta)
  from Cons.IH [of s1] f1(1) c1 show ?case unfolding e by auto
qed

lemma load_graph_simps:
  "fst (load_graph g s) = fresh s"
  "fresh (snd (load_graph g s)) = fresh s + 1"
  "cells (snd (load_graph g s)) (fresh s) = g"
  "a < fresh s \<Longrightarrow> cells (snd (load_graph g s)) a = cells s a"
  by (simp_all add: load_graph_def)

lemma process_image_frame:
  "a < fresh s \<Longrightarrow> cells (snd (process_image eng wjson n archive s)) a = cells s a"
proof (cases wjson)
  case None
  then show ?thesis by (simp add: process_image_def)
next
  case (Some g)
  assume a: "a < fresh s"
  let ?s0 = "snd (load_graph g s)"
  have c0: "cells ?s0 a = cells s a" using a by (simp add: load_graph_simps)
  have f0: "a < fresh ?s0" "a \<noteq> fresh s" using a by (simp_all add: load_graph_simps)
  from process_zip_images_frame [of ?s0 eng "fresh s"] f0 c0
  have z: "\<And>names. cells (snd (process_zip_images eng (fresh s) names ?s0)) a = cells s a"
    by simp
  from process_single_image_frame [of a "fresh s" eng n ?s0] f0 c0
  have o: "cells (snd (process_single_image eng n (fresh s) ?s0)) a = cells s a" by simp
  show ?thesis
    unfolding process_image_def Some option.case Let_def load_graph_simps
    using z o c0
    by (auto simp: case_prod_beta split: option.splits sum.splits)
qed

lemma update_workflow_succeeds_iff:
  "fst (update_workflow w i m b st p s) \<noteq> None
     \<longleftrightarrow> \<not> (\<exists>t \<in> set (workflow_assignments i m b st p). lacks_inputs (cells s w) (fst t))"
proof -
  let ?c = "fst (deep_copy w s)" and ?s0 = "snd (deep_copy w s)"
  let ?asg = "workflow_assignments i m b st p"
  obtain ok s1 where ap: "apply_assignments ?c ?asg ?s0 = (ok, s1)"
    by (cases "apply_assignments ?c ?asg ?s0")
  then have u: "update_workflow w i m b st p s = (if ok then Some (fresh s) else None, s1)"
    by (simp add: update_workflow_def deep_copy_simps)
  from apply_assignments_result [of ?c ?asg ?s0]
  have "fst (apply_assignments ?c ?asg ?s0)
        \<longleftrightarrow> \<not> (\<exists>t \<in> set ?asg. lacks_inputs (cells ?s0 ?c) (fst t))"
    by blast
  then show ?thesis unfolding u ap by (simp add: deep_copy_simps)
qed

section \<open>The claims\<close>

text \<open>
  Claim C10.  In one run of \<open>process_images\<close>, an image without a valid face takes the
  name \<open>closeup(i)ext\<close> with \<open>i\<close> the smallest positive index whose name is not yet in
  \<open>existing_names\<close>, the set of names generated so far in the run (it starts empty and
  only this step adds to it); when the copy succeeds the file is copied to that name in the
  output directory.  Hence the generated names of a run are pairwise distinct.  Names kept
  for images with a face are not checked against the generated ones: in the example run the
  kept \<open>closeup(1).jpg\<close> and the generated \<open>closeup(1).jpg\<close> collide.
\<close>

theorem closeup_names_smallest_unused_and_distinct:
  "(is_face_visible_mediapipe env img = Some False \<longrightarrow>
      (\<exists>i>0. let ext = snd (splitext (basename img));
                 before = process_loop env i_dir o_dir pre;
                 after = process_loop env i_dir o_dir (pre @ [img]);
                 name = closeup_name i ext in
             name \<notin> set (existing_names before)
           \<and> (\<forall>j. 0 < j \<and> j < i \<longrightarrow> closeup_name j ext \<in> set (existing_names before))
           \<and> existing_names after = name # existing_names before
           \<and> (copy2_ok env img (path_join o_dir name) \<longrightarrow>
                 copied after = copied before @ [(img, path_join o_dir name)]
               \<and> processing_details after = processing_details before @
                    [\<lparr>original_file = relpath env img i_dir, new_filename = name,
                      renamed = True, face_detected = False\<rparr>])))
   \<and> existing_names (process_loop env i_dir o_dir []) = []
   \<and> (is_face_visible_mediapipe env img \<noteq> Some False \<longrightarrow>
        existing_names (process_loop env i_dir o_dir (pre @ [img]))
          = existing_names (process_loop env i_dir o_dir pre))
   \<and> distinct (existing_names (process_loop env i_dir o_dir imgs))
   \<and> distinct (generated_names (process_loop env i_dir o_dir imgs))
   \<and> set (generated_names (process_loop env i_dir o_dir imgs))
        \<subseteq> set (existing_names (process_loop env i_dir o_dir imgs))
   \<and> \<not> distinct (map new_filename (processing_details
          (process_loop example_rename_env ''in'' ''out'' [''in/closeup(1).jpg'', ''in/b.jpg''])))"
proof (intro conjI impI)
  assume noface: "is_face_visible_mediapipe env img = Some False"
  define ext where "ext = snd (splitext (basename img))"
  define before where "before = process_loop env i_dir o_dir pre"
  from next_closeup_name_least [of "existing_names before" ext] obtain i where i: "0 < i"
    "next_closeup_name (existing_names before) ext = closeup_name i ext"
    "closeup_name i ext \<notin> set (existing_names before)"
    "\<forall>j. 0 < j \<and> j < i \<longrightarrow> closeup_name j ext \<in> set (existing_names before)"
    by blast
  have step: "process_loop env i_dir o_dir (pre @ [img]) = process_one env i_dir o_dir before img"
    by (simp add: process_loop_snoc before_def)
  show "\<exists>i>0. let ext = snd (splitext (basename img));
                 before = process_loop env i_dir o_dir pre;
                 after = process_loop env i_dir o_dir (pre @ [img]);
                 name = closeup_name i ext in
             name \<notin> set (existing_names before)
           \<and> (\<forall>j. 0 < j \<and> j < i \<longrightarrow> closeup_name j ext \<in> set (existing_names before))
           \<and> existing_names after = name # existing_names before
           \<and> (copy2_ok env img (path_join o_dir name) \<longrightarrow>
                 copied after = copied before @ [(img, path_join o_dir name)]
               \<and> processing_details after = processing_details before @
                    [\<lparr>original_file = relpath env img i_dir, new_filename = name,
                      renamed = True, face_detected = False\<rparr>])"
  proof (intro exI [of _ i] conjI)
    show "0 < i" by (rule i(1))
    show "let ext = snd (splitext (basename img));
                 before = process_loop env i_dir o_dir pre;
                 after = process_loop env i_dir o_dir (pre @ [img]);
                 name = closeup_name i ext in
             name \<notin> set (existing_names before)
           \<and> (\<forall>j. 0 < j \<and> j < i \<longrightarrow> closeup_name j ext \<in> set (existing_names before))
           \<and> existing_names after = name # existing_names before
           \<and> (copy2_ok env img (path_join o_dir name) \<longrightarrow>
                 copied after = copied before @ [(img, path_join o_dir name)]
               \<and> processing_details after = processing_details before @
                    [\<lparr>original_file = relpath env img i_dir, new_filename = name,
                      renamed = True, face_detected = False\<rparr>])"
      using i noface
      unfolding Let_def step before_def [symmetric] ext_def [symmetric]
      by (simp add: process_one_def ext_def [symmetric] Let_def)
  qed
next
  show "existing_names (process_loop env i_dir o_dir []) = []"
    by (simp add: process_loop_def rename_init_def)
next
  assume "is_face_visible_mediapipe env img \<noteq> Some False"
  then show "existing_names (process_loop env i_dir o_dir (pre @ [img]))
          = existing_names (process_loop env i_dir o_dir pre)"
    by (auto simp: process_loop_snoc process_one_def Let_def split: option.splits)
next
  show "distinct (existing_names (process_loop env i_dir o_dir imgs))"
    using process_loop_inv [of env i_dir o_dir imgs] by (simp add: rename_inv_def)
next
  show "distinct (generated_names (process_loop env i_dir o_dir imgs))"
    using process_loop_inv [of env i_dir o_dir imgs] by (simp add: rename_inv_def)
next
  show "set (generated_names (process_loop env i_dir o_dir imgs))
        \<subseteq> set (existing_names (process_loop env i_dir o_dir imgs))"
    using process_loop_inv [of env i_dir o_dir imgs] by (simp add: rename_inv_def)
next
  show "\<not> distinct (map new_filename (processing_details
          (process_loop example_rename_env ''in'' ''out'' [''in/closeup(1).jpg'', ''in/b.jpg''])))"
    by (simp add: example_collision)
qed

theorem closeup_names_smallest_unused_and_distinct_witness:
  "is_face_visible_mediapipe example_rename_env ''in/b.jpg'' = Some False
   \<and> copy2_ok example_rename_env ''in/b.jpg'' (path_join ''out'' (closeup_name 1 ''.jpg''))
   \<and> is_face_visible_mediapipe example_rename_env ''in/closeup(1).jpg'' \<noteq> Some False
   \<and> existing_names (process_loop example_rename_env ''in'' ''out'' [''in/closeup(1).jpg'']) = []
   \<and> existing_names (process_loop example_rename_env ''in'' ''out'' [''in/a.jpg'']) = [''closeup(1).jpg'']
   \<and> existing_names (process_loop example_rename_env ''in'' ''out'' [''in/a.jpg'', ''in/b.jpg''])
        = [''closeup(2).jpg'', ''closeup(1).jpg'']
   \<and> copied (process_loop example_rename_env ''in'' ''out'' [''in/a.jpg'', ''in/b.jpg''])
        = [(''in/a.jpg'', ''out/closeup(1).jpg''), (''in/b.jpg'', ''out/closeup(2).jpg'')]
   \<and> distinct (generated_names
         (process_loop example_rename_env ''in'' ''out'' [''in/a.jpg'', ''in/b.jpg'']))"
  using closeup_names_smallest_unused_and_distinct
    [of example_rename_env "''in/b.jpg''" "''in''" "''out''" "[''in/a.jpg'']" "[''in/a.jpg'', ''in/b.jpg'']"]
    closeup_names_smallest_unused_and_distinct
    [of example_rename_env "''in/closeup(1).jpg''" "''in''" "''out''" "[]" "[]"]
  by (simp add: process_loop_def process_one_def rename_init_def example_rename_env_def
      basename_def splitext_def next_closeup_name_def next_closeup_from.simps closeup_name_def
      str_nat_small digit_char_def path_join_def Let_def generated_names_def)


text \<open>
  Claim C1, as amended.  In the masking poller a poll is treated as complete exactly when
  the reply has status 200, the job id is a key of the history and the designated node (or,
  when that node is missing or an empty object, some node) has a non-empty \<open>images\<close>
  list: this is the test of the loop, a request sent before the deadline returns the
  history at once when it passes and is followed by a sleep and another turn of the loop
  when it fails, and \<open>_poll_history\<close> returns a history exactly when some request sent
  before the deadline passes the test after requests that all failed it.  The compositing
  poller treats a reply as complete exactly when it has no error status and the job id is
  a key of the history, whatever its outputs, and its wait ends as completed exactly at the
  first such reply within the attempts; the images are looked at once afterwards, and when
  no node has any the download fails there, without another poll.
\<close>

theorem completion_test_of_each_poller:
  "(history_ready pid hist \<longleftrightarrow>
      (\<exists>entry. map_of hist pid = Some entry \<and>
         (case map_of (outputs_or_empty entry) OUTPUT_NODE_ID of
            None \<Rightarrow> \<exists>v \<in> set (map snd (outputs_or_empty entry)). has_images v
          | Some d \<Rightarrow>
              if truthy_dict d then has_images d
              else \<exists>v \<in> set (map snd (outputs_or_empty entry)). has_images v)))
   \<and> (job_complete pid r \<longleftrightarrow> status_code r = 200 \<and> history_ready pid (json_body r))
   \<and> poll_history_loop eng pid deadline s =
        (if clock s < deadline then
           (case reply_at eng pid s of
              RequestFailed \<Rightarrow> (Inl RequestError, polled eng pid s)
            | Response r \<Rightarrow>
                if job_complete pid r then (Inr (json_body r), polled eng pid s)
                else poll_history_loop eng pid deadline (poll_round eng pid POLL_INTERVAL_S s))
         else (Inl (HTTPException 504), s))
   \<and> (poll_history eng pid s = (Inr hist, s') \<longleftrightarrow>
        (\<exists>n r. (\<forall>k\<le>n. clock ((poll_round eng pid POLL_INTERVAL_S ^^ k) s)
                          < clock s + 1000 * POLL_TIMEOUT_S)
            \<and> (\<forall>k<n. \<exists>r'. reply_at eng pid ((poll_round eng pid POLL_INTERVAL_S ^^ k) s)
                              = Response r'
                            \<and> \<not> job_complete pid r')
            \<and> reply_at eng pid ((poll_round eng pid POLL_INTERVAL_S ^^ n) s) = Response r
            \<and> job_complete pid r \<and> hist = json_body r
            \<and> s' = polled eng pid ((poll_round eng pid POLL_INTERVAL_S ^^ n) s)))
   \<and> (fst (poll_history eng pid s) = Inr hist \<longrightarrow> history_ready pid hist)
   \<and> (history_if_present (Response r) pid = Some hist \<longleftrightarrow>
        \<not> (400 \<le> status_code r \<and> status_code r < 600)
        \<and> map_of (json_body r) pid \<noteq> None \<and> hist = json_body r)
   \<and> history_if_present RequestFailed pid = None
   \<and> (wait_for_completion eng pid s = (Completed hist, s') \<longleftrightarrow>
        (\<exists>n < POLLING_TIMEOUT div POLLING_INTERVAL.
            (\<forall>k<n. history_if_present
                       (reply_at eng pid ((poll_round eng pid POLLING_INTERVAL ^^ k) s)) pid = None
                    \<and> clock (polled eng pid ((poll_round eng pid POLLING_INTERVAL ^^ k) s))
                          - clock s < 1000 * POLLING_TIMEOUT)
          \<and> history_if_present
               (reply_at eng pid ((poll_round eng pid POLLING_INTERVAL ^^ n) s)) pid = Some hist
          \<and> s' = polled eng pid ((poll_round eng pid POLLING_INTERVAL ^^ n) s)))
   \<and> (fst (wait_for_completion eng pid s) = Completed hist \<longrightarrow> map_of hist pid \<noteq> None)
   \<and> (fst (wait_for_completion eng pid s) = Completed hist
        \<and> map_of hist pid = Some entry
        \<and> (\<forall>v \<in> set (map snd (outputs_or_empty entry)). \<not> has_images v)
        \<longrightarrow> download_processed_image eng pid out s = (False, snd (wait_for_completion eng pid s)))"
proof (intro conjI)
  show "history_ready pid hist \<longleftrightarrow>
      (\<exists>entry. map_of hist pid = Some entry \<and>
         (case map_of (outputs_or_empty entry) OUTPUT_NODE_ID of
            None \<Rightarrow> \<exists>v \<in> set (map snd (outputs_or_empty entry)). has_images v
          | Some d \<Rightarrow>
              if truthy_dict d then has_images d
              else \<exists>v \<in> set (map snd (outputs_or_empty entry)). has_images v))"
  proof (cases "map_of hist pid")
    case None
    then show ?thesis by (simp add: history_ready_def)
  next
    case (Some entry)
    then have "hist \<noteq> []" by auto
    with Some show ?thesis
      by (simp add: history_ready_def node_ready_resolve)
  qed
next
  show "job_complete pid r \<longleftrightarrow> status_code r = 200 \<and> history_ready pid (json_body r)"
    by (rule job_complete_ready)
next
  show "poll_history_loop eng pid deadline s =
        (if clock s < deadline then
           (case reply_at eng pid s of
              RequestFailed \<Rightarrow> (Inl RequestError, polled eng pid s)
            | Response r \<Rightarrow>
                if job_complete pid r then (Inr (json_body r), polled eng pid s)
                else poll_history_loop eng pid deadline (poll_round eng pid POLL_INTERVAL_S s))
         else (Inl (HTTPException 504), s))"
    by (rule poll_history_loop_step)
next
  show "poll_history eng pid s = (Inr hist, s') \<longleftrightarrow>
        (\<exists>n r. (\<forall>k\<le>n. clock ((poll_round eng pid POLL_INTERVAL_S ^^ k) s)
                          < clock s + 1000 * POLL_TIMEOUT_S)
            \<and> (\<forall>k<n. \<exists>r'. reply_at eng pid ((poll_round eng pid POLL_INTERVAL_S ^^ k) s)
                              = Response r'
                            \<and> \<not> job_complete pid r')
            \<and> reply_at eng pid ((poll_round eng pid POLL_INTERVAL_S ^^ n) s) = Response r
            \<and> job_complete pid r \<and> hist = json_body r
            \<and> s' = polled eng pid ((poll_round eng pid POLL_INTERVAL_S ^^ n) s))"
    (is "?L \<longleftrightarrow> ?R")
  proof
    assume ?L
    then show ?R unfolding poll_history_def by (rule poll_history_loop_returns_only_if)
  next
    assume ?R
    then obtain n r where
      a: "\<forall>k\<le>n. clock ((poll_round eng pid POLL_INTERVAL_S ^^ k) s)
                          < clock s + 1000 * POLL_TIMEOUT_S"
      and b: "\<forall>k<n. \<exists>r'. reply_at eng pid ((poll_round eng pid POLL_INTERVAL_S ^^ k) s)
                              = Response r' \<and> \<not> job_complete pid r'"
      and c: "reply_at eng pid ((poll_round eng pid POLL_INTERVAL_S ^^ n) s) = Response r"
      and d: "job_complete pid r"
      and e: "hist = json_body r"
         "s' = polled eng pid ((poll_round eng pid POLL_INTERVAL_S ^^ n) s)"
      by blast
    from poll_history_loop_returns_if [OF a b c d] e show ?L
      by (simp add: poll_history_def)
  qed
next
  show "fst (poll_history eng pid s) = Inr hist \<longrightarrow> history_ready pid hist"
    unfolding poll_history_def by (intro impI) (rule poll_history_loop_ready)
next
  show "history_if_present (Response r) pid = Some hist \<longleftrightarrow>
        \<not> (400 \<le> status_code r \<and> status_code r < 600)
        \<and> map_of (json_body r) pid \<noteq> None \<and> hist = json_body r"
    by (auto simp: history_if_present_def)
next
  show "history_if_present RequestFailed pid = None"
    by (simp add: history_if_present_def)
next
  show "wait_for_completion eng pid s = (Completed hist, s') \<longleftrightarrow>
        (\<exists>n < POLLING_TIMEOUT div POLLING_INTERVAL.
            (\<forall>k<n. history_if_present
                       (reply_at eng pid ((poll_round eng pid POLLING_INTERVAL ^^ k) s)) pid = None
                    \<and> clock (polled eng pid ((poll_round eng pid POLLING_INTERVAL ^^ k) s))
                          - clock s < 1000 * POLLING_TIMEOUT)
          \<and> history_if_present
               (reply_at eng pid ((poll_round eng pid POLLING_INTERVAL ^^ n) s)) pid = Some hist
          \<and> s' = polled eng pid ((poll_round eng pid POLLING_INTERVAL ^^ n) s))"
    unfolding wait_for_completion_def by (rule completion_loop_completed_iff)
next
  show "fst (wait_for_completion eng pid s) = Completed hist \<longrightarrow> map_of hist pid \<noteq> None"
    unfolding wait_for_completion_def by (intro impI) (rule completion_loop_completed)
next
  show "fst (wait_for_completion eng pid s) = Completed hist
        \<and> map_of hist pid = Some entry
        \<and> (\<forall>v \<in> set (map snd (outputs_or_empty entry)). \<not> has_images v)
        \<longrightarrow> download_processed_image eng pid out s = (False, snd (wait_for_completion eng pid s))"
    using download_without_images [of eng pid s hist "snd (wait_for_completion eng pid s)" entry out]
    by (simp add: prod_eq_iff)
qed

text \<open>
  Claim C1 as stated fails in the compositing poller: a history that has the job id but no
  outputs ends the polling as completed, after one request, and the download then fails.
\<close>

theorem completion_on_key_presence_counterexample:
  "fst (wait_for_completion (example_engine (ok_response None)) ''job1''
          (example_state example_graph)) = Completed [(''job1'', \<lparr>outputs = None\<rparr>)]
   \<and> outputs_or_empty \<lparr>outputs = None\<rparr> = []
   \<and> \<not> history_ready ''job1'' [(''job1'', \<lparr>outputs = None\<rparr>)]
   \<and> download_processed_image (example_engine (ok_response None)) ''job1'' ''out/processed_a.jpg''
          (example_state example_graph)
        = (False, emit (History ''job1'') (advance 200 (example_state example_graph)))"
  by (simp add: example_wait_no_outputs download_processed_image_def outputs_or_empty_def
      resolve_preview_node_def truthy_dict_def history_ready_def resolve_output_node_def
      node_ready_def)

text \<open>
  The amended C1 at concrete engines: a masking job whose history lacks the job at the
  first request and has a mask image at the second, and a compositing job whose history
  has the job without outputs.
\<close>

theorem completion_test_of_each_poller_witness:
  "\<not> job_complete ''job1'' \<lparr>status_code = 200, json_body = []\<rparr>
   \<and> job_complete ''job1'' finished_response
   \<and> poll_history warming_engine ''job1'' (example_state example_graph)
       = (Inr (json_body finished_response),
          polled warming_engine ''job1''
            (poll_round warming_engine ''job1'' POLL_INTERVAL_S (example_state example_graph)))
   \<and> trace (snd (poll_history warming_engine ''job1'' (example_state example_graph)))
       = [History ''job1'', Sleep POLL_INTERVAL_S, History ''job1'']
   \<and> history_ready ''job1'' (json_body finished_response)
   \<and> wait_for_completion (example_engine (ok_response None)) ''job1'' (example_state example_graph)
       = (Completed (json_body (ok_response None)),
          polled (example_engine (ok_response None)) ''job1'' (example_state example_graph))
   \<and> map_of (json_body (ok_response None)) ''job1'' = Some \<lparr>outputs = None\<rparr>
   \<and> outputs_or_empty \<lparr>outputs = None\<rparr> = []
   \<and> download_processed_image (example_engine (ok_response None)) ''job1'' ''out/processed_a.jpg''
          (example_state example_graph)
        = (False, snd (wait_for_completion (example_engine (ok_response None)) ''job1''
             (example_state example_graph)))"
proof -
  let ?W = warming_engine
  let ?E = "example_engine (ok_response None)"
  let ?S = "example_state example_graph"
  let ?R = "poll_round ?W ''job1'' POLL_INTERVAL_S"
  let ?r0 = "\<lparr>status_code = 200, json_body = []\<rparr> :: http_response"
  have nc: "\<not> job_complete ''job1'' ?r0"
    by (simp add: job_complete_def)
  have fc: "job_complete ''job1'' finished_response"
    by (simp add: job_complete_def finished_response_def ok_response_def outputs_or_empty_def
        OUTPUT_NODE_ID_def images_node_def truthy_dict_def has_images_def)
  have r0: "reply_at ?W ''job1'' ?S = Response ?r0"
    by (simp add: reply_at_def warming_engine_def example_state_def)
  have r1: "reply_at ?W ''job1'' (?R ?S) = Response finished_response"
    by (simp add: reply_at_def warming_engine_def example_state_def)
  have c0: "clock ?S = 0" by (simp add: example_state_def)
  have c1: "clock (?R ?S) = 5200"
    by (simp add: warming_engine_def example_state_def POLL_INTERVAL_S_def sleep_def emit_def
        advance_def)
  have a: "\<forall>k\<le>Suc 0. clock ((?R ^^ k) ?S) < clock ?S + 1000 * POLL_TIMEOUT_S"
    by (simp add: le_Suc_eq all_conj_distrib warming_engine_def example_state_def
        POLL_INTERVAL_S_def POLL_TIMEOUT_S_def)
  have b: "\<forall>k<Suc 0. \<exists>r'. reply_at ?W ''job1'' ((?R ^^ k) ?S) = Response r'
                            \<and> \<not> job_complete ''job1'' r'"
    using r0 nc by simp
  have r1': "reply_at ?W ''job1'' ((?R ^^ Suc 0) ?S) = Response finished_response"
    using r1 by simp
  note T = completion_test_of_each_poller
             [where eng = ?W and pid = "''job1''" and s = ?S
                and hist = "json_body finished_response"
                and s' = "polled ?W ''job1'' ((?R ^^ Suc 0) ?S)"]
  have p: "poll_history ?W ''job1'' ?S
             = (Inr (json_body finished_response), polled ?W ''job1'' (?R ?S))"
  proof -
    have "\<exists>n r. (\<forall>k\<le>n. clock ((?R ^^ k) ?S) < clock ?S + 1000 * POLL_TIMEOUT_S)
            \<and> (\<forall>k<n. \<exists>r'. reply_at ?W ''job1'' ((?R ^^ k) ?S) = Response r'
                            \<and> \<not> job_complete ''job1'' r')
            \<and> reply_at ?W ''job1'' ((?R ^^ n) ?S) = Response r
            \<and> job_complete ''job1'' r \<and> json_body finished_response = json_body r
            \<and> polled ?W ''job1'' ((?R ^^ Suc 0) ?S) = polled ?W ''job1'' ((?R ^^ n) ?S)"
      using a b r1' fc by (intro exI [of _ "Suc 0"] exI [of _ finished_response]) simp
    with T [THEN conjunct2, THEN conjunct2, THEN conjunct2, THEN conjunct1]
    have "poll_history ?W ''job1'' ?S
             = (Inr (json_body finished_response), polled ?W ''job1'' ((?R ^^ Suc 0) ?S))"
      by (rule iffD2)
    then show ?thesis by simp
  qed
  have tr: "trace (snd (poll_history ?W ''job1'' ?S))
       = [History ''job1'', Sleep POLL_INTERVAL_S, History ''job1'']"
    unfolding p by (simp add: example_state_def)
  from T [THEN conjunct2, THEN conjunct2, THEN conjunct2, THEN conjunct2, THEN conjunct1] p
  have hr: "history_ready ''job1'' (json_body finished_response)" by simp
  note U = completion_test_of_each_poller
             [where eng = ?E and pid = "''job1''" and s = ?S
                and hist = "json_body (ok_response None)"
                and s' = "polled ?E ''job1'' ?S"
                and entry = "\<lparr>outputs = None\<rparr>" and out = "''out/processed_a.jpg''"]
  have h0: "history_if_present (reply_at ?E ''job1'' ?S) ''job1'' = Some (json_body (ok_response None))"
    by (simp add: reply_at_def example_engine_def ok_response_def history_if_present_def)
  have w: "wait_for_completion ?E ''job1'' ?S
       = (Completed (json_body (ok_response None)), polled ?E ''job1'' ?S)"
  proof -
    have "\<exists>n < POLLING_TIMEOUT div POLLING_INTERVAL.
            (\<forall>k<n. history_if_present
                       (reply_at ?E ''job1'' ((poll_round ?E ''job1'' POLLING_INTERVAL ^^ k) ?S)) ''job1'' = None
                    \<and> clock (polled ?E ''job1'' ((poll_round ?E ''job1'' POLLING_INTERVAL ^^ k) ?S))
                          - clock ?S < 1000 * POLLING_TIMEOUT)
          \<and> history_if_present
               (reply_at ?E ''job1'' ((poll_round ?E ''job1'' POLLING_INTERVAL ^^ n) ?S)) ''job1''
                = Some (json_body (ok_response None))
          \<and> polled ?E ''job1'' ?S = polled ?E ''job1'' ((poll_round ?E ''job1'' POLLING_INTERVAL ^^ n) ?S)"
      using h0 by (intro exI [of _ 0]) (simp add: POLLING_TIMEOUT_def POLLING_INTERVAL_def)
    with U [THEN conjunct2, THEN conjunct2, THEN conjunct2, THEN conjunct2, THEN conjunct2,
            THEN conjunct2, THEN conjunct2, THEN conjunct1]
    show ?thesis by (rule iffD2)
  qed
  have e0: "map_of (json_body (ok_response None)) ''job1'' = Some \<lparr>outputs = None\<rparr>"
    by (simp add: ok_response_def)
  have o0: "outputs_or_empty \<lparr>outputs = None\<rparr> = []"
    by (simp add: outputs_or_empty_def)
  from U [THEN conjunct2, THEN conjunct2, THEN conjunct2, THEN conjunct2, THEN conjunct2,
            THEN conjunct2, THEN conjunct2, THEN conjunct2, THEN conjunct2] w e0 o0
  have d: "download_processed_image ?E ''job1'' ''out/processed_a.jpg'' ?S
        = (False, snd (wait_for_completion ?E ''job1'' ?S))"
    by simp
  from nc fc p tr hr w e0 o0 d show ?thesis by (intro conjI)
qed



text \<open>
  Claim C5, as amended.  Let \<open>v\<close> be the first node of the outputs map whose \<open>images\<close>
  is non-empty.  In the masking path, when the designated node is missing or an empty
  object, the resolver selects \<open>v\<close> and the first image of \<open>v\<close> is the one fetched.  In
  the compositing path, when node 15 is missing or has no \<open>images\<close> key, the resolver
  selects \<open>v\<close> and the download runs over the images of \<open>v\<close>.
\<close>

theorem fallback_selects_first_node_with_images:
  assumes "outs = pre @ (k, v) # post" and "has_images v"
    and "\<forall>kv \<in> set pre. \<not> has_images (snd kv)"
  shows
   "((case map_of outs OUTPUT_NODE_ID of None \<Rightarrow> True | Some d \<Rightarrow> \<not> truthy_dict d) \<longrightarrow>
       resolve_output_node outs = Some v
       \<and> (\<exists>info rest. images v = Some (info # rest)
            \<and> (map_of hist pid = Some entry \<and> outputs entry = Some outs \<longrightarrow>
                 trace (snd (fetch_first_image eng hist pid s))
                   = trace s @ [View (view_params_of info)]
                 \<and> fst (fetch_first_image eng hist pid s) \<noteq> Inl (HTTPException 500))))
    \<and> ((case map_of outs ''15'' of None \<Rightarrow> True | Some d \<Rightarrow> images d = None) \<longrightarrow>
         resolve_preview_node outs = Some v
         \<and> (fst (wait_for_completion eng pid s) = Completed hist \<and> map_of hist pid = Some entry
              \<and> outputs_or_empty entry = outs \<longrightarrow>
             (\<exists>imgs. images v = Some imgs \<and> imgs \<noteq> []
                \<and> download_processed_image eng pid out s
                   = (case download_variants eng out 0 (take 4 imgs) 0
                             (snd (wait_for_completion eng pid s)) of
                        (downloaded_count, s2) \<Rightarrow> (0 < downloaded_count, s2)))))"
proof (intro conjI impI)
  have f: "find has_images (map snd outs) = Some v"
    using assms by (rule find_has_images_first)
  from has_images_cons [OF assms(2)] obtain info rest where ir: "images v = Some (info # rest)"
    by blast
  {
    assume d: "case map_of outs OUTPUT_NODE_ID of None \<Rightarrow> True | Some d \<Rightarrow> \<not> truthy_dict d"
    from resolve_output_node_fallback [OF d f]
    show r: "resolve_output_node outs = Some v" .
    show "\<exists>info rest. images v = Some (info # rest)
            \<and> (map_of hist pid = Some entry \<and> outputs entry = Some outs \<longrightarrow>
                 trace (snd (fetch_first_image eng hist pid s))
                   = trace s @ [View (view_params_of info)]
                 \<and> fst (fetch_first_image eng hist pid s) \<noteq> Inl (HTTPException 500))"
    proof (intro exI [of _ info] exI [of _ rest] conjI impI)
      show "images v = Some (info # rest)" by (rule ir)
    next
      assume "map_of hist pid = Some entry \<and> outputs entry = Some outs"
      then have eq: "fetch_first_image eng hist pid s
        = (case view_reply eng (trace s) (view_params_of info) of
             None \<Rightarrow> Inl RequestError
           | Some content \<Rightarrow> Inr content,
           emit (View (view_params_of info)) s)"
        using fetch_first_image_resolved [OF _ _ r ir] by blast
      show "trace (snd (fetch_first_image eng hist pid s)) = trace s @ [View (view_params_of info)]"
        by (simp add: eq emit_def)
      show "fst (fetch_first_image eng hist pid s) \<noteq> Inl (HTTPException 500)"
        by (simp add: eq split: option.splits)
    qed
  }
  {
    assume d: "case map_of outs ''15'' of None \<Rightarrow> True | Some d \<Rightarrow> images d = None"
    from resolve_preview_node_fallback [OF d f assms(2)]
    show r: "resolve_preview_node outs = Some v" .
    assume "fst (wait_for_completion eng pid s) = Completed hist \<and> map_of hist pid = Some entry
              \<and> outputs_or_empty entry = outs"
    then have w: "fst (wait_for_completion eng pid s) = Completed hist"
      and e: "map_of hist pid = Some entry"
      and r': "resolve_preview_node (outputs_or_empty entry) = Some v"
      using r by simp_all
    from download_resolved [OF w e r' ir]
    show "\<exists>imgs. images v = Some imgs \<and> imgs \<noteq> []
                \<and> download_processed_image eng pid out s
                   = (case download_variants eng out 0 (take 4 imgs) 0
                             (snd (wait_for_completion eng pid s)) of
                        (downloaded_count, s2) \<Rightarrow> (0 < downloaded_count, s2))"
      using ir by (intro exI [of _ "info # rest"]) simp
  }
qed

text \<open>
  Claim C5 as stated fails when the designated node is present with an empty \<open>images\<close>
  list: neither resolver falls back to the other node, the masking fetch raises 500 and
  the compositing download reports failure.
\<close>

theorem empty_designated_node_counterexample:
  "has_images (images_node [''x.png''])
   \<and> resolve_output_node [(''455'', images_node []), (''9'', images_node [''x.png''])]
        = Some (images_node [])
   \<and> fst (fetch_first_image (example_engine (ok_response None))
            [(''job1'', \<lparr>outputs = Some [(''455'', images_node []), (''9'', images_node [''x.png''])]\<rparr>)]
            ''job1'' (example_state example_graph)) = Inl (HTTPException 500)
   \<and> resolve_preview_node [(''15'', images_node []), (''9'', images_node [''x.png''])]
        = Some (images_node [])
   \<and> \<not> fst (download_processed_image
              (example_engine (ok_response (Some [(''15'', images_node []), (''9'', images_node [''x.png''])])))
              ''job1'' ''out/processed_a.jpg'' (example_state example_graph))"
proof -
  let ?outs = "[(''15'', images_node []), (''9'', images_node [''x.png''])]"
  have r: "resolve_preview_node ?outs = Some (images_node [])"
    by (simp add: resolve_preview_node_def images_node_def truthy_dict_def)
  have w: "wait_for_completion (example_engine (ok_response (Some ?outs))) ''job1''
             (example_state example_graph)
           = (Completed (json_body (ok_response (Some ?outs))),
              emit (History ''job1'') (advance 200 (example_state example_graph)))"
    by (subst wait_for_completion_first [where h = "json_body (ok_response (Some ?outs))"])
       (simp_all add: example_engine_def ok_response_def history_if_present_def)
  have d: "\<not> fst (download_processed_image (example_engine (ok_response (Some ?outs)))
              ''job1'' ''out/processed_a.jpg'' (example_state example_graph))"
    unfolding download_processed_image_def w
    by (simp add: ok_response_def outputs_or_empty_def r) (simp add: images_node_def)
  have m: "resolve_output_node [(''455'', images_node []), (''9'', images_node [''x.png''])]
        = Some (images_node [])"
    by (simp add: resolve_output_node_def OUTPUT_NODE_ID_def images_node_def truthy_dict_def)
  have f: "fst (fetch_first_image (example_engine (ok_response None))
            [(''job1'', \<lparr>outputs = Some [(''455'', images_node []), (''9'', images_node [''x.png''])]\<rparr>)]
            ''job1'' (example_state example_graph)) = Inl (HTTPException 500)"
    by (simp add: fetch_first_image_def m) (simp add: images_node_def)
  have h: "has_images (images_node [''x.png''])"
    by (simp add: has_images_def images_node_def)
  from h m f r d show ?thesis by blast
qed

text \<open>The amended C5 at an outputs map whose second node is the first one with images.\<close>

theorem fallback_selects_first_node_with_images_witness:
  "has_images (images_node [''x.png''])
   \<and> \<not> has_images \<lparr>images = None, other_keys = [''text'']\<rparr>
   \<and> map_of [(''3'', \<lparr>images = None, other_keys = [''text'']\<rparr>), (''9'', images_node [''x.png'']),
              (''12'', images_node [''y.png''])] OUTPUT_NODE_ID = None
   \<and> map_of [(''3'', \<lparr>images = None, other_keys = [''text'']\<rparr>), (''9'', images_node [''x.png'']),
              (''12'', images_node [''y.png''])] ''15'' = None
   \<and> resolve_output_node
        [(''3'', \<lparr>images = None, other_keys = [''text'']\<rparr>), (''9'', images_node [''x.png'']),
         (''12'', images_node [''y.png''])] = Some (images_node [''x.png''])
   \<and> resolve_preview_node
        [(''3'', \<lparr>images = None, other_keys = [''text'']\<rparr>), (''9'', images_node [''x.png'']),
         (''12'', images_node [''y.png''])] = Some (images_node [''x.png''])"
  using fallback_selects_first_node_with_images
          [where outs = "[(''3'', \<lparr>images = None, other_keys = [''text'']\<rparr>),
                          (''9'', images_node [''x.png'']), (''12'', images_node [''y.png''])]"
             and pre = "[(''3'', \<lparr>images = None, other_keys = [''text'']\<rparr>)]"
             and k = "''9''" and v = "images_node [''x.png'']"
             and post = "[(''12'', images_node [''y.png''])]"]
  by (simp add: has_images_def images_node_def OUTPUT_NODE_ID_def)




text \<open>
  Claim C2, as amended.  In \<open>update_workflow\<close> an assignment whose node id is absent from
  the copy is skipped: the call gives the same result as with that assignment removed, the
  copy has exactly the node ids of the template, in their order, so an absent id stays
  absent, the call fails only when a node that is present has no \<open>inputs\<close> object, and
  when it succeeds every assignment whose node is present has been carried out on the
  copy.  In the masking path an absent input node is an error: the mutation raises 500,
  and \<open>_process_single_image\<close> raises it right after the upload.
\<close>

theorem absent_node_is_skipped_by_update_workflow:
  "apply_assignments a asg s
     = apply_assignments a (filter (\<lambda>t. map_of (cells s a) (fst t) \<noteq> None) asg) s
   \<and> map fst (cells (snd (update_workflow w i m b st p s)) (fresh s)) = map fst (cells s w)
   \<and> (map_of (cells s w) node_id = None
        \<longrightarrow> map_of (cells (snd (update_workflow w i m b st p s)) (fresh s)) node_id = None)
   \<and> (fst (update_workflow w i m b st p s) \<noteq> None
        \<longleftrightarrow> \<not> (\<exists>t \<in> set (workflow_assignments i m b st p). lacks_inputs (cells s w) (fst t)))
   \<and> (fst (update_workflow w i m b st p s) \<noteq> None
        \<longrightarrow> fst (update_workflow w i m b st p s) = Some (fresh s)
            \<and> (\<forall>t \<in> set (workflow_assignments i m b st p).
                  map_of (cells s w) (fst t) \<noteq> None \<longrightarrow>
                    node_input (cells (snd (update_workflow w i m b st p s)) (fresh s))
                       (fst t) (fst (snd t)) = Some (snd (snd t))))
   \<and> (map_of (cells s g) INPUT_NODE_ID = None
        \<longrightarrow> set_input_image g comfy_name s = (Inl (HTTPException 500), s)
            \<and> (upload_reply eng (trace s) original_name \<noteq> None
                 \<longrightarrow> process_single_image eng original_name g s
                       = (Inl (HTTPException 500), emit (Upload original_name) s)))"
proof (intro conjI)
  let ?c = "fst (deep_copy w s)" and ?s0 = "snd (deep_copy w s)"
  let ?asg = "workflow_assignments i m b st p"
  obtain ok s1 where ap: "apply_assignments ?c ?asg ?s0 = (ok, s1)"
    by (cases "apply_assignments ?c ?asg ?s0")
  then have u: "update_workflow w i m b st p s = (if ok then Some (fresh s) else None, s1)"
    by (simp add: update_workflow_def deep_copy_simps)
  have c0: "cells ?s0 ?c = cells s w" by (simp add: deep_copy_simps)
  have cf: "?c = fresh s" by (simp add: deep_copy_simps)
  from apply_assignments_result [of ?c ?asg ?s0]
  have R0: "map fst (cells (snd (apply_assignments ?c ?asg ?s0)) ?c) = map fst (cells ?s0 ?c)"
    "fst (apply_assignments ?c ?asg ?s0)
        \<longleftrightarrow> \<not> (\<exists>t \<in> set ?asg. lacks_inputs (cells ?s0 ?c) (fst t))"
    "fst (apply_assignments ?c ?asg ?s0) \<and> distinct (map fst ?asg) \<longrightarrow>
        (\<forall>t \<in> set ?asg. map_of (cells ?s0 ?c) (fst t) \<noteq> None \<longrightarrow>
           node_input (cells (snd (apply_assignments ?c ?asg ?s0)) ?c) (fst t) (fst (snd t))
             = Some (snd (snd t)))"
    by blast+
  note R = R0 [unfolded ap c0 fst_conv snd_conv, unfolded cf]
  show "apply_assignments a asg s
     = apply_assignments a (filter (\<lambda>t. map_of (cells s a) (fst t) \<noteq> None) asg) s"
    by (rule apply_assignments_skip_absent)
  show k: "map fst (cells (snd (update_workflow w i m b st p s)) (fresh s)) = map fst (cells s w)"
    unfolding u using R by simp
  show "map_of (cells s w) node_id = None
        \<longrightarrow> map_of (cells (snd (update_workflow w i m b st p s)) (fresh s)) node_id = None"
    using arg_cong [OF k, of set] by (simp add: map_of_eq_None_iff)
  show "fst (update_workflow w i m b st p s) \<noteq> None
        \<longleftrightarrow> \<not> (\<exists>t \<in> set ?asg. lacks_inputs (cells s w) (fst t))"
    unfolding u using R by simp
  have d: "distinct (map fst ?asg)" by (simp add: workflow_assignments_ids)
  show "fst (update_workflow w i m b st p s) \<noteq> None
        \<longrightarrow> fst (update_workflow w i m b st p s) = Some (fresh s)
            \<and> (\<forall>t \<in> set ?asg.
                  map_of (cells s w) (fst t) \<noteq> None \<longrightarrow>
                    node_input (cells (snd (update_workflow w i m b st p s)) (fresh s))
                       (fst t) (fst (snd t)) = Some (snd (snd t)))"
    unfolding u using R d by (cases ok) simp_all
  show "map_of (cells s g) INPUT_NODE_ID = None
        \<longrightarrow> set_input_image g comfy_name s = (Inl (HTTPException 500), s)
            \<and> (upload_reply eng (trace s) original_name \<noteq> None
                 \<longrightarrow> process_single_image eng original_name g s
                       = (Inl (HTTPException 500), emit (Upload original_name) s))"
    by (auto simp: set_input_image_def process_single_image_def upload_to_comfy_def emit_def)
qed

text \<open>
  Claim C2 as stated fails in the masking path: on a workflow without node \<open>54\<close> the
  call raises 500 after the upload, instead of skipping the assignment.
\<close>

theorem absent_input_node_raises_counterexample:
  "map_of graph_without_input_node INPUT_NODE_ID = None
   \<and> process_single_image (example_engine finished_response) ''a.png'' 0
        (example_state graph_without_input_node)
      = (Inl (HTTPException 500), emit (Upload ''a.png'') (example_state graph_without_input_node))"
  by (simp add: graph_without_input_node_def INPUT_NODE_ID_def process_single_image_def
      upload_to_comfy_def example_engine_def set_input_image_def example_state_def emit_def)

text \<open>
  The amended C2 at the example workflow, which has no node \<open>110\<close>: the style assignment
  is skipped and the other four are made on the copy.
\<close>

theorem absent_node_is_skipped_by_update_workflow_witness:
  "map_of (cells (example_state example_graph) 0) ''110'' = None
   \<and> fst (update_workflow 0 ''a.jpg'' ''a.png'' ''bg.png'' ''st.png'' None
            (example_state example_graph)) = Some 1
   \<and> map_of (cells (snd (update_workflow 0 ''a.jpg'' ''a.png'' ''bg.png'' ''st.png'' None
            (example_state example_graph))) 1) ''110'' = None
   \<and> node_input (cells (snd (update_workflow 0 ''a.jpg'' ''a.png'' ''bg.png'' ''st.png'' None
            (example_state example_graph))) 1) ''454'' ''image'' = Some (JStr ''a.jpg'')
   \<and> node_input (cells (snd (update_workflow 0 ''a.jpg'' ''a.png'' ''bg.png'' ''st.png'' None
            (example_state example_graph))) 1) ''448'' ''string'' = Some (JStr DEFAULT_PROMPT)
   \<and> map_of (cells (example_state graph_without_input_node) 0) INPUT_NODE_ID = None
   \<and> set_input_image 0 ''up_a.png'' (example_state graph_without_input_node)
        = (Inl (HTTPException 500), example_state graph_without_input_node)"
proof -
  let ?S = "example_state example_graph"
  let ?U = "update_workflow 0 ''a.jpg'' ''a.png'' ''bg.png'' ''st.png'' None ?S"
  let ?asg = "workflow_assignments ''a.jpg'' ''a.png'' ''bg.png'' ''st.png'' None"
  note T = absent_node_is_skipped_by_update_workflow
             [where w = 0 and i = "''a.jpg''" and m = "''a.png''" and b = "''bg.png''"
                and st = "''st.png''" and p = None and s = ?S and node_id = "''110''"]
  have f: "fresh ?S = 1" by (simp add: example_state_def)
  have c: "cells ?S 0 = example_graph" by (simp add: example_state_def)
  have a: "map_of (cells ?S 0) ''110'' = None" unfolding c by (simp add: example_graph_def)
  have nl: "\<not> (\<exists>t \<in> set ?asg. lacks_inputs (cells ?S 0) (fst t))"
    unfolding c by (simp add: workflow_assignments_def example_graph_def lacks_inputs_def)
  from T [THEN conjunct2, THEN conjunct2, THEN conjunct2, THEN conjunct1] nl
  have ok: "fst ?U \<noteq> None" by (rule iffD2)
  from T [THEN conjunct2, THEN conjunct2, THEN conjunct2, THEN conjunct2, THEN conjunct1,
          THEN mp, OF ok]
  have r: "fst ?U = Some 1"
    and all: "\<forall>t \<in> set ?asg. map_of (cells ?S 0) (fst t) \<noteq> None \<longrightarrow>
                    node_input (cells (snd ?U) 1) (fst t) (fst (snd t)) = Some (snd (snd t))"
    unfolding f by blast+
  from T [THEN conjunct2, THEN conjunct2, THEN conjunct1, THEN mp, OF a]
  have n110: "map_of (cells (snd ?U) 1) ''110'' = None" unfolding f .
  from all [rule_format, of "(''454'', ''image'', JStr ''a.jpg'')"]
  have n454: "node_input (cells (snd ?U) 1) ''454'' ''image'' = Some (JStr ''a.jpg'')"
    unfolding c by (simp add: workflow_assignments_def example_graph_def)
  from all [rule_format, of "(''448'', ''string'', JStr DEFAULT_PROMPT)"]
  have n448: "node_input (cells (snd ?U) 1) ''448'' ''string'' = Some (JStr DEFAULT_PROMPT)"
    unfolding c by (simp add: workflow_assignments_def example_graph_def)
  have g: "map_of (cells (example_state graph_without_input_node) 0) INPUT_NODE_ID = None"
    by (simp add: example_state_def graph_without_input_node_def INPUT_NODE_ID_def)
  from absent_node_is_skipped_by_update_workflow
         [where g = 0 and s = "example_state graph_without_input_node"
            and comfy_name = "''up_a.png''",
          THEN conjunct2, THEN conjunct2, THEN conjunct2, THEN conjunct2, THEN conjunct2,
          THEN mp, OF g]
  have m: "set_input_image 0 ''up_a.png'' (example_state graph_without_input_node)
        = (Inl (HTTPException 500), example_state graph_without_input_node)"
    by (rule conjunct1)
  from a r n110 n454 n448 g m show ?thesis by (intro conjI)
qed



text \<open>
  Claim C3, as amended.  \<open>update_workflow\<close> works on a deep copy: the graph it returns is
  a new object, every object that existed before the call, the template among them, is
  unchanged after it, and neither the clock nor the trace moves.  The masking mutator
  \<open>_process_single_image\<close> makes no copy: it writes the uploaded name into node \<open>54\<close>
  of the graph object it is handed and touches no other object.  \<open>process_image\<close> hands
  it a deep copy for each image of an archive, so the loaded graph survives an archive
  unchanged, and the loaded graph itself for a single image; as that graph is loaded anew
  by each call, no object that existed before a call of \<open>process_image\<close> is changed by
  it.
\<close>

theorem update_workflow_copies_and_mask_mutates_in_place:
  "(\<forall>a. a < fresh s \<longrightarrow> cells (snd (update_workflow w i m b st p s)) a = cells s a)
   \<and> trace (snd (update_workflow w i m b st p s)) = trace s
   \<and> clock (snd (update_workflow w i m b st p s)) = clock s
   \<and> fresh (snd (update_workflow w i m b st p s)) = fresh s + 1
   \<and> (fst (update_workflow w i m b st p s) = None
        \<or> fst (update_workflow w i m b st p s) = Some (fresh s))
   \<and> (\<forall>a. a \<noteq> g \<longrightarrow> cells (snd (process_single_image eng n g s)) a = cells s a)
   \<and> (map_of (cells s g) INPUT_NODE_ID \<noteq> None \<and> upload_reply eng (trace s) n = Some cn
        \<longrightarrow> node_input (cells (snd (process_single_image eng n g s)) g) INPUT_NODE_ID ''image''
              = Some (JStr cn))
   \<and> (\<forall>a. a < fresh s \<longrightarrow> cells (snd (process_zip_images eng g names s)) a = cells s a)
   \<and> (\<forall>a. a < fresh s \<longrightarrow> cells (snd (process_image eng wjson n archive s)) a = cells s a)"
proof (intro conjI allI impI)
  fix a assume "a < fresh s"
  then show "cells (snd (update_workflow w i m b st p s)) a = cells s a"
    using update_workflow_frame [of a s w i m b st p] by simp
next
  show "trace (snd (update_workflow w i m b st p s)) = trace s"
    "clock (snd (update_workflow w i m b st p s)) = clock s"
    "fresh (snd (update_workflow w i m b st p s)) = fresh s + 1"
    "fst (update_workflow w i m b st p s) = None
        \<or> fst (update_workflow w i m b st p s) = Some (fresh s)"
    using update_workflow_frame [of 0 s w i m b st p] by simp_all
next
  fix a assume "a \<noteq> g"
  then show "cells (snd (process_single_image eng n g s)) a = cells s a"
    using process_single_image_frame [of a g eng n s] by simp
next
  assume h: "map_of (cells s g) INPUT_NODE_ID \<noteq> None \<and> upload_reply eng (trace s) n = Some cn"
  then have u: "upload_to_comfy eng n s = (Inr cn, emit (Upload n) s)"
    by (simp add: upload_to_comfy_def)
  from h have "map_of (cells (emit (Upload n) s) g) INPUT_NODE_ID \<noteq> None" by simp
  from set_input_image_in_place [OF this, of cn]
  show "node_input (cells (snd (process_single_image eng n g s)) g) INPUT_NODE_ID ''image''
              = Some (JStr cn)"
    using process_single_image_cells [of eng n g s] u by simp
next
  fix a assume "a < fresh s"
  then show "cells (snd (process_zip_images eng g names s)) a = cells s a"
    using process_zip_images_frame [of s eng g names] by simp
next
  fix a assume "a < fresh s"
  then show "cells (snd (process_image eng wjson n archive s)) a = cells s a"
    by (rule process_image_frame)
qed

text \<open>
  Claim C3 as stated fails for the masking mutator: after \<open>_process_single_image\<close> the
  graph object it was called on has the uploaded name in node \<open>54\<close>, where the template
  had \<open>x.png\<close>.
\<close>

theorem mask_mutation_in_place_counterexample:
  "node_input (cells (example_state example_graph) 0) INPUT_NODE_ID ''image'' = Some (JStr ''x.png'')
   \<and> fst (process_single_image (example_engine finished_response) ''a.png'' 0
           (example_state example_graph)) = Inr (''a.png'', ''PNG'')
   \<and> node_input
        (cells (snd (process_single_image (example_engine finished_response) ''a.png'' 0
                       (example_state example_graph))) 0) INPUT_NODE_ID ''image''
       = Some (JStr ''up_a.png'')
   \<and> cells (snd (process_single_image (example_engine finished_response) ''a.png'' 0
                       (example_state example_graph))) 0
       \<noteq> cells (example_state example_graph) 0"
proof -
  let ?E = "example_engine finished_response"
  let ?S = "example_state example_graph"
  let ?P = "process_single_image ?E ''a.png'' 0 ?S"
  have b: "node_input (cells ?S 0) INPUT_NODE_ID ''image'' = Some (JStr ''x.png'')"
    by (simp add: example_state_def example_graph_def node_input_def INPUT_NODE_ID_def)
  have up: "upload_to_comfy ?E ''a.png'' ?S = (Inr ''up_a.png'', emit (Upload ''a.png'') ?S)"
    by (simp add: upload_to_comfy_def example_engine_def basename_def)
  have pr: "map_of (cells (emit (Upload ''a.png'') ?S) 0) INPUT_NODE_ID \<noteq> None"
    by (simp add: example_state_def example_graph_def INPUT_NODE_ID_def)
  from set_input_image_in_place [OF pr, of "''up_a.png''"]
  have si: "fst (set_input_image 0 ''up_a.png'' (emit (Upload ''a.png'') ?S)) = Inr ()"
    and ni: "node_input (cells (snd (set_input_image 0 ''up_a.png'' (emit (Upload ''a.png'') ?S))) 0)
               INPUT_NODE_ID ''image'' = Some (JStr ''up_a.png'')"
    by simp_all
  from process_single_image_cells [of ?E "''a.png''" 0 ?S] up
  have cl: "cells (snd ?P) = cells (snd (set_input_image 0 ''up_a.png'' (emit (Upload ''a.png'') ?S)))"
    by simp
  have a: "node_input (cells (snd ?P) 0) INPUT_NODE_ID ''image'' = Some (JStr ''up_a.png'')"
    unfolding cl by (rule ni)
  have ne: "cells (snd ?P) 0 \<noteq> cells ?S 0"
  proof
    assume "cells (snd ?P) 0 = cells ?S 0"
    with a b show False by simp
  qed
  obtain s2 where s2: "set_input_image 0 ''up_a.png'' (emit (Upload ''a.png'') ?S) = (Inr (), s2)"
    using si by (cases "set_input_image 0 ''up_a.png'' (emit (Upload ''a.png'') ?S)") simp
  have q: "queue_prompt ?E 0 s2 = (Inr ''job1'', emit (Submit (cells s2 0)) s2)"
    by (simp add: queue_prompt_def example_engine_def)
  let ?s3 = "emit (Submit (cells s2 0)) s2"
  have ra: "reply_at ?E ''job1'' ?s3 = Response finished_response"
    by (simp add: reply_at_def example_engine_def)
  have fc: "job_complete ''job1'' finished_response"
    by (simp add: job_complete_def finished_response_def ok_response_def outputs_or_empty_def
        OUTPUT_NODE_ID_def images_node_def truthy_dict_def has_images_def)
  have ph: "poll_history ?E ''job1'' ?s3 = (Inr (json_body finished_response), polled ?E ''job1'' ?s3)"
    unfolding poll_history_def
    by (subst poll_history_loop_step) (simp add: ra fc POLL_TIMEOUT_S_def)
  have ff: "fst (fetch_first_image ?E (json_body finished_response) ''job1'' (polled ?E ''job1'' ?s3))
              = Inr ''PNG''"
    by (simp add: fetch_first_image_def finished_response_def ok_response_def
        resolve_output_node_def OUTPUT_NODE_ID_def images_node_def truthy_dict_def
        example_image_def example_engine_def Let_def)
  have r: "fst ?P = Inr (''a.png'', ''PNG'')"
    using ff
    by (cases "fetch_first_image ?E (json_body finished_response) ''job1'' (polled ?E ''job1'' ?s3)")
       (simp add: process_single_image_def up s2 q ph)
  from b r a ne show ?thesis by (intro conjI)
qed

text \<open>
  The amended C3 at the example workflow: the template at address 0 is the same after
  \<open>update_workflow\<close>, whose result is the new object at address 1, and after an archive
  of two images has gone through the masking path.
\<close>

theorem update_workflow_copies_and_mask_mutates_in_place_witness:
  "(0::nat) < fresh (example_state example_graph)
   \<and> cells (snd (update_workflow 0 ''a.jpg'' ''a.png'' ''bg.png'' ''st.png'' None
                   (example_state example_graph))) 0 = example_graph
   \<and> fst (update_workflow 0 ''a.jpg'' ''a.png'' ''bg.png'' ''st.png'' None
            (example_state example_graph)) = Some 1
   \<and> cells (snd (process_zip_images (example_engine finished_response) 0 [''a.png'', ''b.png'']
                   (example_state example_graph))) 0 = example_graph
   \<and> map_of (cells (example_state example_graph) 0) INPUT_NODE_ID \<noteq> None
   \<and> upload_reply (example_engine finished_response) (trace (example_state example_graph)) ''a.png''
        = Some ''up_a.png''
   \<and> node_input
        (cells (snd (process_single_image (example_engine finished_response) ''a.png'' 0
                       (example_state example_graph))) 0) INPUT_NODE_ID ''image''
       = Some (JStr ''up_a.png'')
   \<and> (1::nat) \<noteq> 0
   \<and> cells (snd (process_single_image (example_engine finished_response) ''a.png'' 0
                       (example_state example_graph))) 1 = []"
proof -
  let ?E = "example_engine finished_response"
  let ?S = "example_state example_graph"
  note T = update_workflow_copies_and_mask_mutates_in_place
             [where s = ?S and w = 0 and i = "''a.jpg''" and m = "''a.png''" and b = "''bg.png''"
                and st = "''st.png''" and p = None and eng = ?E and g = 0 and n = "''a.png''"
                and cn = "''up_a.png''" and names = "[''a.png'', ''b.png'']"]
  have f: "(0::nat) < fresh ?S" by (simp add: example_state_def)
  have c: "cells ?S 0 = example_graph" "cells ?S 1 = []" by (simp_all add: example_state_def)
  have f1: "fresh ?S = 1" by (simp add: example_state_def)
  from T [THEN conjunct1, rule_format, OF f]
  have a: "cells (snd (update_workflow 0 ''a.jpg'' ''a.png'' ''bg.png'' ''st.png'' None ?S)) 0
             = example_graph"
    by (simp add: c)
  have ok: "fst (update_workflow 0 ''a.jpg'' ''a.png'' ''bg.png'' ''st.png'' None ?S) \<noteq> None"
    unfolding update_workflow_succeeds_iff c
    by (simp add: workflow_assignments_def example_graph_def lacks_inputs_def)
  from T [THEN conjunct2, THEN conjunct2, THEN conjunct2, THEN conjunct2, THEN conjunct1] ok
  have r: "fst (update_workflow 0 ''a.jpg'' ''a.png'' ''bg.png'' ''st.png'' None ?S) = Some 1"
    by (simp add: f1)
  from T [THEN conjunct2, THEN conjunct2, THEN conjunct2, THEN conjunct2, THEN conjunct2,
          THEN conjunct2, THEN conjunct2, THEN conjunct1, rule_format, OF f]
  have z: "cells (snd (process_zip_images ?E 0 [''a.png'', ''b.png''] ?S)) 0 = example_graph"
    by (simp add: c)
  have pr: "map_of (cells ?S 0) INPUT_NODE_ID \<noteq> None"
    unfolding c by (simp add: example_graph_def INPUT_NODE_ID_def)
  have up: "upload_reply ?E (trace ?S) ''a.png'' = Some ''up_a.png''"
    by (simp add: example_engine_def basename_def)
  from T [THEN conjunct2, THEN conjunct2, THEN conjunct2, THEN conjunct2, THEN conjunct2,
          THEN conjunct2, THEN conjunct1, THEN mp, OF conjI [OF pr up]]
  have ni: "node_input (cells (snd (process_single_image ?E ''a.png'' 0 ?S)) 0)
              INPUT_NODE_ID ''image'' = Some (JStr ''up_a.png'')" .
  have ne: "(1::nat) \<noteq> 0" by simp
  from T [THEN conjunct2, THEN conjunct2, THEN conjunct2, THEN conjunct2, THEN conjunct2,
          THEN conjunct1, rule_format, OF ne]
  have o: "cells (snd (process_single_image ?E ''a.png'' 0 ?S)) 1 = []"
    by (simp add: example_state_def)
  from f a r z pr up ni ne o show ?thesis by (intro conjI)
qed

end
